theory Spec2Isabelle
  imports Complex_Main
begin

text \<open>
  A model of the script entity (\<^verbatim>\<open>backend/src/models/Script.js\<close>) and of the script
  service (\<^verbatim>\<open>backend/src/services/ScriptService.js\<close>): the constructor with its
  defaults, validation, variable extraction and substitution, versioning, and the
  service operations that create, read, update, delete, duplicate and version a script
  in the collection.
\<close>

section \<open>JavaScript values\<close>

text \<open>
  Script content is an arbitrarily nested JSON-like value. A string is a list of code
  units, each a \<open>char\<close> (so the code units are those below 256). An object is an
  association list in the order in which the object enumerates its own properties; its
  keys are distinct. Numbers are restricted to integers that print in plain decimal
  notation.
\<close>

datatype jsval =
    JNull
  | JBool bool
  | JNum int
  | JStr string
  | JArr "jsval list"
  | JObj "(string \<times> jsval) list"

text \<open>JavaScript truthiness, as used by \<^verbatim>\<open>||\<close>, \<^verbatim>\<open>&&\<close> and \<^verbatim>\<open>!\<close>.\<close>

fun truthy :: "jsval \<Rightarrow> bool" where
  "truthy JNull = False"
| "truthy (JBool b) = b"
| "truthy (JNum n) = (n \<noteq> 0)"
| "truthy (JStr s) = (s \<noteq> [])"
| "truthy (JArr xs) = True"
| "truthy (JObj kvs) = True"

section \<open>The placeholder pattern\<close>

text \<open>
  The regular expression \<^verbatim>\<open>/\{([^}]+)\}/g\<close> of \<^verbatim>\<open>Script.js\<close>.
  \<open>variableRegex_at\<close> is the anchored match: an opening brace, the longest non-empty
  run of characters other than a closing brace, and a closing brace. It returns the
  captured group and the text after the match.
\<close>

definition variableRegex_at :: "string \<Rightarrow> (string \<times> string) option" where
  "variableRegex_at s =
     (case s of
        [] \<Rightarrow> None
      | c # cs \<Rightarrow>
          if c = CHR ''{'' then
            (let tok = takeWhile (\<lambda>x. x \<noteq> CHR ''}'') cs;
                 after = dropWhile (\<lambda>x. x \<noteq> CHR ''}'') cs
             in if tok \<noteq> [] \<and> after \<noteq> [] then Some (tok, tl after) else None)
          else None)"

text \<open>
  \<open>variableRegex_exec\<close> is the search for the leftmost match: the text skipped before
  it, the captured group, and the text after it (where the next search of a global
  regular expression starts).
\<close>

fun variableRegex_exec :: "string \<Rightarrow> (string \<times> string \<times> string) option" where
  "variableRegex_exec [] = None"
| "variableRegex_exec (c # cs) =
     (case variableRegex_at (c # cs) of
        Some (tok, rest) \<Rightarrow> Some ([], tok, rest)
      | None \<Rightarrow>
          (case variableRegex_exec cs of
             None \<Rightarrow> None
           | Some (pre, tok, rest) \<Rightarrow> Some (c # pre, tok, rest)))"

lemma variableRegex_at_shorter:
  "variableRegex_at s = Some (tok, rest) \<Longrightarrow> length rest < length s"
proof -
  assume a: "variableRegex_at s = Some (tok, rest)"
  then obtain cs where s: "s = CHR ''{'' # cs"
    and r: "rest = tl (dropWhile (\<lambda>x. x \<noteq> CHR ''}'') cs)"
    by (auto simp: variableRegex_at_def Let_def split: list.splits if_splits)
  have "length (dropWhile (\<lambda>x. x \<noteq> CHR ''}'') cs) \<le> length cs"
    by (rule length_dropWhile_le)
  then show ?thesis using s r by simp
qed

lemma variableRegex_exec_shorter:
  "variableRegex_exec s = Some (pre, tok, rest) \<Longrightarrow> length rest < length s"
proof (induction s arbitrary: pre)
  case Nil
  then show ?case by simp
next
  case (Cons c cs)
  show ?case
  proof (cases "variableRegex_at (c # cs)")
    case (Some m)
    then show ?thesis using Cons.prems variableRegex_at_shorter [of "c # cs"]
      by (cases m) auto
  next
    case None
    then obtain pre' where "variableRegex_exec cs = Some (pre', tok, rest)"
      using Cons.prems by (auto split: option.splits)
    then show ?thesis using Cons.IH by fastforce
  qed
qed

section \<open>Variable substitution\<close>

text \<open>
  \<^verbatim>\<open>str.replace(/\{([^}]+)\}/g, (match, variable) => variableValues[variable] || match)\<close>:
  every match, left to right and non-overlapping, is replaced by the value of the
  callback; the text between matches is copied. The value map is the partial function
  that the read \<^verbatim>\<open>variableValues[variable]\<close> computes: \<open>None\<close> where the read
  gives undefined, and otherwise the value as the string that \<^verbatim>\<open>replace\<close> inserts
  (empty exactly when the value is falsy). A member that every object inherits, such as
  \<^verbatim>\<open>constructor\<close>, is a key of this function like an own key.
\<close>

definition replacer :: "(string \<rightharpoonup> string) \<Rightarrow> string \<Rightarrow> string" where
  "replacer variableValues variable =
     (case variableValues variable of
        Some v \<Rightarrow> if v \<noteq> [] then v else ''{'' @ variable @ ''}''
      | None \<Rightarrow> ''{'' @ variable @ ''}'')"

function replaceInString :: "(string \<rightharpoonup> string) \<Rightarrow> string \<Rightarrow> string" where
  "replaceInString variableValues str =
     (case variableRegex_exec str of
        None \<Rightarrow> str
      | Some (pre, variable, rest) \<Rightarrow>
          pre @ replacer variableValues variable @ replaceInString variableValues rest)"
  by pat_completeness auto
termination
  by (relation "measure (\<lambda>(V, s). length s)") (auto dest: variableRegex_exec_shorter)

declare replaceInString.simps [simp del]

text \<open>
  \<^verbatim>\<open>replaceInObject\<close> builds a new array from an array and a new plain object from an
  object, member by member, with \<^verbatim>\<open>result[key] = replaceInObject(value)\<close>. On a plain
  object the assignment to the key \<^verbatim>\<open>__proto__\<close> creates no member (it reaches the
  setter that every object inherits), so a member of that name is not in the result.
\<close>

fun replaceInObject :: "(string \<rightharpoonup> string) \<Rightarrow> jsval \<Rightarrow> jsval" where
  "replaceInObject V (JArr xs) = JArr (map (replaceInObject V) xs)"
| "replaceInObject V (JObj kvs) =
     JObj (map (\<lambda>kv. (fst kv, replaceInObject V (snd kv)))
             (filter (\<lambda>kv. fst kv \<noteq> ''__proto__'') kvs))"
| "replaceInObject V (JStr s) = JStr (replaceInString V s)"
| "replaceInObject V v = v"

text \<open>
  The read \<^verbatim>\<open>variableValues[variable]\<close> on a plain object whose own members are the
  strings of \<open>own\<close>: an own member if there is one, and otherwise the member of that
  name that every plain object inherits from \<^verbatim>\<open>Object.prototype\<close>, if there is one.
  The inherited members are functions, but for \<^verbatim>\<open>__proto__\<close>, which reads as the
  prototype object; all of them are truthy, and \<^verbatim>\<open>replace\<close> inserts their text.
\<close>

definition native_function :: "string \<Rightarrow> string" where
  "native_function f = ''function '' @ f @ ''() { [native code] }''"

definition Object_prototype :: "string \<rightharpoonup> string" where
  "Object_prototype =
     map_of
       ([(''constructor'', native_function ''Object''),
         (''__proto__'', ''[object Object]'')]
        @ map (\<lambda>f. (f, native_function f))
            [''__defineGetter__'', ''__defineSetter__'', ''hasOwnProperty'',
             ''__lookupGetter__'', ''__lookupSetter__'', ''isPrototypeOf'',
             ''propertyIsEnumerable'', ''toString'', ''valueOf'', ''toLocaleString''])"

definition property_read :: "(string \<rightharpoonup> string) \<Rightarrow> (string \<rightharpoonup> string)" where
  "property_read own = Object_prototype ++ own"

section \<open>Serialisation\<close>

text \<open>
  \<^verbatim>\<open>JSON.stringify\<close> on the values above: no whitespace, object members in enumeration
  order, strings quoted with the JSON escapes (quotation mark, reverse solidus, the
  short escapes for backspace, tab, line feed, form feed and carriage return, and
  \<^verbatim>\<open>\u00XX\<close> with lower-case digits for the other control characters).
\<close>

definition dq :: char where
  "dq = CHR 0x22"

definition bs :: char where
  "bs = CHR 0x5C"

definition hex_digit :: "nat \<Rightarrow> char" where
  "hex_digit n = ''0123456789abcdef'' ! (n mod 16)"

definition json_escape_char :: "char \<Rightarrow> string" where
  "json_escape_char c =
     (if c = dq then [bs, dq]
      else if c = bs then [bs, bs]
      else if c = CHR 0x08 then [bs, CHR ''b'']
      else if c = CHR 0x0C then [bs, CHR ''f'']
      else if c = CHR 0x0A then [bs, CHR ''n'']
      else if c = CHR 0x0D then [bs, CHR ''r'']
      else if c = CHR 0x09 then [bs, CHR ''t'']
      else if (of_char c :: nat) < 32 then
        [bs, CHR ''u'', CHR ''0'', CHR ''0'',
         hex_digit ((of_char c :: nat) div 16), hex_digit (of_char c)]
      else [c])"

definition json_escape :: "string \<Rightarrow> string" where
  "json_escape s = concat (map json_escape_char s)"

definition QuoteJSONString :: "string \<Rightarrow> string" where
  "QuoteJSONString s = dq # json_escape s @ [dq]"

fun digits :: "nat \<Rightarrow> string" where
  "digits n =
     (if n < 10 then [hex_digit n] else digits (n div 10) @ [hex_digit (n mod 10)])"

declare digits.simps [simp del]

definition number_toString :: "int \<Rightarrow> string" where
  "number_toString n = (if n < 0 then CHR ''-'' # digits (nat (- n)) else digits (nat n))"

text \<open>\<^verbatim>\<open>Array.prototype.join\<close> on an array of strings.\<close>

fun join :: "string \<Rightarrow> string list \<Rightarrow> string" where
  "join sep [] = []"
| "join sep [x] = x"
| "join sep (x # y # ys) = x @ sep @ join sep (y # ys)"

fun JSON_stringify :: "jsval \<Rightarrow> string" where
  "JSON_stringify JNull = ''null''"
| "JSON_stringify (JBool b) = (if b then ''true'' else ''false'')"
| "JSON_stringify (JNum n) = number_toString n"
| "JSON_stringify (JStr s) = QuoteJSONString s"
| "JSON_stringify (JArr xs) = ''['' @ join '','' (map JSON_stringify xs) @ '']''"
| "JSON_stringify (JObj kvs) =
     ''{'' @ join '','' (map (\<lambda>kv. QuoteJSONString (fst kv) @ '':'' @ JSON_stringify (snd kv)) kvs)
       @ ''}''"

section \<open>Variable extraction\<close>

text \<open>
  A JavaScript \<^verbatim>\<open>Set\<close> keeps its members in insertion order; adding a member it
  already has changes nothing.
\<close>

definition Set_add :: "string list \<Rightarrow> string \<Rightarrow> string list" where
  "Set_add variables v = (if v \<in> set variables then variables else variables @ [v])"

text \<open>
  The loop \<^verbatim>\<open>while ((match = variableRegex.exec(content)) !== null) variables.add(match[1])\<close>:
  each search starts where the previous match ended.
\<close>

function extract_loop :: "string \<Rightarrow> string list \<Rightarrow> string list" where
  "extract_loop content variables =
     (case variableRegex_exec content of
        None \<Rightarrow> variables
      | Some (pre, tok, rest) \<Rightarrow> extract_loop rest (Set_add variables tok))"
  by pat_completeness auto
termination
  by (relation "measure (\<lambda>(s, vs). length s)") (auto dest: variableRegex_exec_shorter)

declare extract_loop.simps [simp del]

definition extractVariables_content :: "jsval \<Rightarrow> string list" where
  "extractVariables_content content = extract_loop (JSON_stringify content) []"

section \<open>The Script entity\<close>

text \<open>
  Field types follow the data model: text fields are strings, \<open>content\<close> and
  \<open>settings\<close> are JSON-like values, \<open>version\<close> is a number with an integer value,
  the identifiers are strings or null (\<open>None\<close>), timestamps are instants read off a
  clock. A metrics object has the five documented members: the four figures, each
  possibly missing (\<open>None\<close>), and \<open>last_used\<close>, which is missing, null or an
  instant.
\<close>

type_synonym timestamp = nat

text \<open>
  A field of a plain record: absent, present with the value null (or undefined), or
  present with a value.
\<close>

datatype 'a field = Absent | Null | Present 'a

record metrics =
  total_uses :: "real option"
  success_rate :: "real option"
  average_duration :: "real option"
  conversion_rate :: "real option"
  last_used :: "timestamp field"

text \<open>
  The \<^verbatim>\<open>data\<close> argument of the constructor, every plain record built with object
  spread, and every stored document: each field is absent, null or a value of the
  field's type.
\<close>

record ScriptData =
  data_id :: "string field"
  data_name :: "string field"
  data_description :: "string field"
  data_type :: "string field"
  data_industry :: "string field"
  data_language :: "string field"
  data_tone :: "string field"
  data_objective :: "string field"
  data_content :: "jsval field"
  data_variables :: "string list field"
  data_settings :: "jsval field"
  data_performance_metrics :: "metrics field"
  data_tags :: "string list field"
  data_status :: "string field"
  data_created_by :: "string field"
  data_created_at :: "timestamp field"
  data_updated_at :: "timestamp field"
  data_version :: "int field"
  data_parent_script_id :: "string field"

record Script =
  script_id :: "string option"
  name :: string
  description :: string
  type :: string
  industry :: string
  language :: string
  tone :: string
  objective :: string
  content :: jsval
  variables :: "string list"
  settings :: jsval
  performance_metrics :: metrics
  tags :: "string list"
  status :: string
  created_by :: string
  created_at :: timestamp
  updated_at :: timestamp
  version :: int
  parent_script_id :: "string option"

definition no_data :: ScriptData where
  "no_data =
     \<lparr> data_id = Absent, data_name = Absent, data_description = Absent, data_type = Absent,
       data_industry = Absent, data_language = Absent, data_tone = Absent, data_objective = Absent,
       data_content = Absent, data_variables = Absent, data_settings = Absent,
       data_performance_metrics = Absent, data_tags = Absent, data_status = Absent,
       data_created_by = Absent, data_created_at = Absent, data_updated_at = Absent,
       data_version = Absent, data_parent_script_id = Absent \<rparr>"

text \<open>A value that is a string or null, as a field that is present.\<close>

definition of_nullable :: "'a option \<Rightarrow> 'a field" where
  "of_nullable a = (case a of None \<Rightarrow> Null | Some x \<Rightarrow> Present x)"

text \<open>
  \<^verbatim>\<open>a || b\<close> at each field type: the left operand when it is present and truthy,
  the default otherwise. Arrays, objects and dates are always truthy.
\<close>

definition or_string :: "string field \<Rightarrow> string \<Rightarrow> string" where
  "or_string a b = (case a of Present s \<Rightarrow> if s \<noteq> [] then s else b | _ \<Rightarrow> b)"

definition or_null :: "string field \<Rightarrow> string option" where
  "or_null a = (case a of Present s \<Rightarrow> if s \<noteq> [] then Some s else None | _ \<Rightarrow> None)"

definition or_value :: "jsval field \<Rightarrow> jsval \<Rightarrow> jsval" where
  "or_value a b = (case a of Present v \<Rightarrow> if truthy v then v else b | _ \<Rightarrow> b)"

definition or_number :: "int field \<Rightarrow> int \<Rightarrow> int" where
  "or_number a b = (case a of Present n \<Rightarrow> if n \<noteq> 0 then n else b | _ \<Rightarrow> b)"

definition or_object :: "'a field \<Rightarrow> 'a \<Rightarrow> 'a" where
  "or_object a b = (case a of Present x \<Rightarrow> x | _ \<Rightarrow> b)"

text \<open>
  The sum of two numbers with integer values: the exact sum, rounded to the nearest
  double with ties to the even significand. Every integer of magnitude up to \<open>2^53\<close>
  is a double; above it \<open>k\<close> low bits are dropped, where the magnitude has
  \<open>53 + k\<close> bits.
\<close>

function bit_length :: "int \<Rightarrow> nat" where
  "bit_length n = (if n \<le> 0 then 0 else Suc (bit_length (n div 2)))"
  by pat_completeness auto
termination
  by (relation "measure nat") auto

declare bit_length.simps [simp del]

definition round_double :: "int \<Rightarrow> int" where
  "round_double n =
     (if \<bar>n\<bar> < 2 ^ 53 then n
      else
        (let k = bit_length \<bar>n\<bar> - 53;
             q = \<bar>n\<bar> div 2 ^ k;
             r = \<bar>n\<bar> mod 2 ^ k;
             q' = (if 2 ^ k < 2 * r \<or> (2 * r = 2 ^ k \<and> odd q) then q + 1 else q)
         in sgn n * (q' * 2 ^ k)))"

definition js_add :: "int \<Rightarrow> int \<Rightarrow> int" where
  "js_add a b = round_double (a + b)"

definition default_content :: jsval where
  "default_content =
     JObj [(''opening'', JStr []), (''main_points'', JArr []),
           (''objection_handling'', JObj []), (''closing'', JStr []),
           (''fallback_responses'', JArr [])]"

definition default_settings :: jsval where
  "default_settings =
     JObj [(''max_duration'', JNum 300), (''retry_attempts'', JNum 3),
           (''voice_settings'',
              JObj [(''voice_id'', JStr ''en-US-Standard-A''), (''speed'', JNum 1),
                    (''pitch'', JNum 0)]),
           (''ai_behavior'',
              JObj [(''interruption_handling'', JBool True),
                    (''sentiment_adaptation'', JBool True),
                    (''conversation_flow'', JStr ''adaptive'')])]"

definition baseline_metrics :: metrics where
  "baseline_metrics =
     \<lparr> total_uses = Some 0, success_rate = Some 0, average_duration = Some 0,
       conversion_rate = Some 0, last_used = Null \<rparr>"

text \<open>The constructor; \<open>now\<close> is what \<^verbatim>\<open>new Date()\<close> reads.\<close>

definition Script_new :: "ScriptData \<Rightarrow> timestamp \<Rightarrow> Script" where
  "Script_new data now =
     \<lparr> script_id = or_null (data_id data),
       name = or_string (data_name data) [],
       description = or_string (data_description data) [],
       type = or_string (data_type data) ''call'',
       industry = or_string (data_industry data) [],
       language = or_string (data_language data) ''en'',
       tone = or_string (data_tone data) ''professional'',
       objective = or_string (data_objective data) [],
       content = or_value (data_content data) default_content,
       variables = or_object (data_variables data) [],
       settings = or_value (data_settings data) default_settings,
       performance_metrics = or_object (data_performance_metrics data) baseline_metrics,
       tags = or_object (data_tags data) [],
       status = or_string (data_status data) ''draft'',
       created_by = or_string (data_created_by data) [],
       created_at = or_object (data_created_at data) now,
       updated_at = or_object (data_updated_at data) now,
       version = or_number (data_version data) 1,
       parent_script_id = or_null (data_parent_script_id data) \<rparr>"

text \<open>Object spread of a Script instance: every field is present, the two identifiers
  possibly with the value null.\<close>

definition spread :: "Script \<Rightarrow> ScriptData" where
  "spread s =
     \<lparr> data_id = of_nullable (script_id s), data_name = Present (name s),
       data_description = Present (description s), data_type = Present (type s),
       data_industry = Present (industry s), data_language = Present (language s),
       data_tone = Present (tone s), data_objective = Present (objective s),
       data_content = Present (content s), data_variables = Present (variables s),
       data_settings = Present (settings s),
       data_performance_metrics = Present (performance_metrics s),
       data_tags = Present (tags s), data_status = Present (status s),
       data_created_by = Present (created_by s), data_created_at = Present (created_at s),
       data_updated_at = Present (updated_at s), data_version = Present (version s),
       data_parent_script_id = of_nullable (parent_script_id s) \<rparr>"

text \<open>\<^verbatim>\<open>{...a, ...b}\<close>: a field of \<open>b\<close> that is present, be it with the value null,
  replaces the field of \<open>a\<close>.\<close>

definition over :: "'a field \<Rightarrow> 'a field \<Rightarrow> 'a field" where
  "over a b = (case b of Absent \<Rightarrow> a | _ \<Rightarrow> b)"

definition merge :: "ScriptData \<Rightarrow> ScriptData \<Rightarrow> ScriptData" where
  "merge a b =
     \<lparr> data_id = over (data_id a) (data_id b),
       data_name = over (data_name a) (data_name b),
       data_description = over (data_description a) (data_description b),
       data_type = over (data_type a) (data_type b),
       data_industry = over (data_industry a) (data_industry b),
       data_language = over (data_language a) (data_language b),
       data_tone = over (data_tone a) (data_tone b),
       data_objective = over (data_objective a) (data_objective b),
       data_content = over (data_content a) (data_content b),
       data_variables = over (data_variables a) (data_variables b),
       data_settings = over (data_settings a) (data_settings b),
       data_performance_metrics =
         over (data_performance_metrics a) (data_performance_metrics b),
       data_tags = over (data_tags a) (data_tags b),
       data_status = over (data_status a) (data_status b),
       data_created_by = over (data_created_by a) (data_created_by b),
       data_created_at = over (data_created_at a) (data_created_at b),
       data_updated_at = over (data_updated_at a) (data_updated_at b),
       data_version = over (data_version a) (data_version b),
       data_parent_script_id = over (data_parent_script_id a) (data_parent_script_id b) \<rparr>"

subsection \<open>Validation\<close>

datatype error = Error string | TypeError string

text \<open>The class of an error object, as \<^verbatim>\<open>error.name\<close> gives it.\<close>

fun error_name :: "error \<Rightarrow> string" where
  "error_name (Error message) = ''Error''"
| "error_name (TypeError message) = ''TypeError''"

record validation =
  isValid :: bool
  errors :: "string list"

definition is_space :: "char \<Rightarrow> bool" where
  "is_space c \<longleftrightarrow> c \<in> set [CHR 0x09, CHR 0x0A, CHR 0x0B, CHR 0x0C, CHR 0x0D, CHR 0x20, CHR 0xA0]"

definition trim :: "string \<Rightarrow> string" where
  "trim s = rev (dropWhile is_space (rev (dropWhile is_space s)))"

text \<open>
  Reading a property: an own member of an object, \<^verbatim>\<open>length\<close> of a string or an
  array, and undefined (\<open>None\<close>) otherwise.
\<close>

fun get_prop :: "jsval \<Rightarrow> string \<Rightarrow> jsval option" where
  "get_prop (JObj kvs) k = map_of kvs k"
| "get_prop (JStr s) k = (if k = ''length'' then Some (JNum (int (length s))) else None)"
| "get_prop (JArr xs) k = (if k = ''length'' then Some (JNum (int (length xs))) else None)"
| "get_prop v k = None"

definition falsy_prop :: "jsval option \<Rightarrow> bool" where
  "falsy_prop v = (case v of None \<Rightarrow> True | Some x \<Rightarrow> \<not> truthy x)"

definition main_points_missing :: "jsval \<Rightarrow> bool" where
  "main_points_missing c =
     (case get_prop c ''main_points'' of
        None \<Rightarrow> True
      | Some mp \<Rightarrow> \<not> truthy mp \<or> get_prop mp ''length'' = Some (JNum 0))"

definition validate_errors :: "Script \<Rightarrow> string list" where
  "validate_errors s =
     (if name s = [] \<or> trim (name s) = [] then [''Script name is required''] else [])
     @ (if name s \<noteq> [] \<and> length (name s) > 100
        then [''Script name must be less than 100 characters''] else [])
     @ (if type s \<notin> set [''call'', ''sms'', ''email'']
        then [''Script type must be call, sms, or email''] else [])
     @ (if tone s \<notin> set [''professional'', ''casual'', ''friendly'', ''assertive'']
        then [''Invalid tone specified''] else [])
     @ (if status s \<notin> set [''draft'', ''active'', ''archived'']
        then [''Invalid status specified''] else [])
     @ (if type s = ''call'' \<and> falsy_prop (get_prop (content s) ''opening'')
        then [''Opening script is required for call scripts''] else [])
     @ (if type s = ''sms'' \<and> main_points_missing (content s)
        then [''Main points are required for SMS scripts''] else [])"

text \<open>
  \<^verbatim>\<open>validate()\<close> reads \<^verbatim>\<open>this.content.opening\<close> for a call script and
  \<^verbatim>\<open>this.content.main_points\<close> for an sms script; on a null content that read
  throws.
\<close>

definition validate :: "Script \<Rightarrow> error + validation" where
  "validate s =
     (if (type s = ''call'' \<or> type s = ''sms'') \<and> content s = JNull
      then Inl (TypeError ''Cannot read properties of null'')
      else Inr \<lparr> isValid = (validate_errors s = []), errors = validate_errors s \<rparr>)"

subsection \<open>Methods\<close>

definition toFirestore :: "Script \<Rightarrow> ScriptData" where
  "toFirestore s = (spread s) \<lparr> data_id := Absent \<rparr>"

definition extractVariables :: "Script \<Rightarrow> string list" where
  "extractVariables s = extractVariables_content (content s)"

definition replaceVariables :: "Script \<Rightarrow> (string \<rightharpoonup> string) \<Rightarrow> Script" where
  "replaceVariables s variableValues =
     s \<lparr> content := replaceInObject variableValues (content s) \<rparr>"

definition createVersion :: "Script \<Rightarrow> timestamp \<Rightarrow> Script" where
  "createVersion s now =
     Script_new
       ((spread s)
          \<lparr> data_id := Null,
            data_version := Present (js_add (version s) 1),
            data_parent_script_id := of_nullable (script_id s),
            data_created_at := Present now,
            data_updated_at := Present now,
            data_performance_metrics := Present baseline_metrics \<rparr>)
       now"

section \<open>The Script service\<close>

text \<open>
  The collection is a finite map from document ids to the stored plain records. The
  storage collaborator is taken to answer every read and delete, and every update of
  a document that exists; what it answers to \<^verbatim>\<open>add\<close> and the clock readings are
  arguments (one reading of the local clock per call, and the server's for
  \<^verbatim>\<open>FieldValue.serverTimestamp()\<close>). Every operation returns its result (\<open>Inl\<close>
  the thrown error) and the collection after it. A stored record has no fields but
  those of a script.
\<close>

type_synonym store = "string \<rightharpoonup> ScriptData"

text \<open>
  \<^verbatim>\<open>this.collection.doc(id).update(fields)\<close>: the fields given replace those of the
  stored document and the others stay; a document that does not exist is not
  created, the call is rejected.
\<close>

definition collection_update :: "store \<Rightarrow> string \<Rightarrow> ScriptData \<Rightarrow> error + store" where
  "collection_update st doc_id changes =
     (case st doc_id of
        None \<Rightarrow> Inl (Error ''No document to update'')
      | Some old \<Rightarrow> Inr (st(doc_id \<mapsto> merge old changes)))"

text \<open>
  \<^verbatim>\<open>{...data.performance_metrics, last_used: data.performance_metrics?.last_used?.toDate() || null}\<close>:
  the stored metrics object, if there is one, with \<open>last_used\<close> set to the stored
  instant or, failing that, to null.
\<close>

definition no_metrics :: metrics where
  "no_metrics =
     \<lparr> total_uses = None, success_rate = None, average_duration = None,
       conversion_rate = None, last_used = Null \<rparr>"

definition read_last_used :: "timestamp field \<Rightarrow> timestamp field" where
  "read_last_used l = (case l of Present t \<Rightarrow> Present t | _ \<Rightarrow> Null)"

definition read_metrics :: "metrics field \<Rightarrow> metrics" where
  "read_metrics f =
     (case f of
        Present m \<Rightarrow> m \<lparr> last_used := read_last_used (last_used m) \<rparr>
      | _ \<Rightarrow> no_metrics)"

definition fromFirestore :: "string \<Rightarrow> ScriptData \<Rightarrow> timestamp \<Rightarrow> Script" where
  "fromFirestore doc_id data now =
     Script_new
       ((merge (no_data \<lparr> data_id := Present doc_id \<rparr>) data)
          \<lparr> data_created_at := Present (or_object (data_created_at data) now),
            data_updated_at := Present (or_object (data_updated_at data) now),
            data_performance_metrics := Present (read_metrics (data_performance_metrics data)) \<rparr>)
       now"

text \<open>
  \<^verbatim>\<open>if (userId && script.created_by !== userId)\<close>: the check runs for a user id that
  is given and not the empty string.
\<close>

definition access_denied :: "string option \<Rightarrow> Script \<Rightarrow> bool" where
  "access_denied userId script =
     (case userId of None \<Rightarrow> False | Some u \<Rightarrow> u \<noteq> [] \<and> created_by script \<noteq> u)"

definition getScript :: "store \<Rightarrow> string \<Rightarrow> string option \<Rightarrow> timestamp \<Rightarrow> error + Script" where
  "getScript st scriptId userId now =
     (case st scriptId of
        None \<Rightarrow> Inl (Error ''Script not found'')
      | Some data \<Rightarrow>
          (let script = fromFirestore scriptId data now
           in if access_denied userId script then Inl (Error ''Access denied'')
              else Inr script))"

text \<open>
  \<open>createScript_with\<close> is \<^verbatim>\<open>createScript\<close> with the answer of the collaborator to
  \<^verbatim>\<open>this.collection.add\<close> as its last argument: the id it assigned to the new
  document, or the error it rejected the call with, which \<^verbatim>\<open>createScript\<close> rethrows
  as it is. \<open>createScript\<close> is the case where the collaborator accepts.
\<close>

definition createScript_with ::
  "store \<Rightarrow> ScriptData \<Rightarrow> string option \<Rightarrow> timestamp \<Rightarrow> error + string
     \<Rightarrow> (error + Script) \<times> store"
where
  "createScript_with st scriptData userId now add_answer =
     (let script =
            Script_new
              (scriptData \<lparr> data_created_by := of_nullable userId,
                 data_created_at := Present now, data_updated_at := Present now \<rparr>)
              now
      in case validate script of
           Inl e \<Rightarrow> (Inl e, st)
         | Inr validation \<Rightarrow>
             if \<not> isValid validation then
               (Inl (Error (''Validation failed: '' @ join '', '' (errors validation))), st)
             else
               (let script = script \<lparr> variables := extractVariables script \<rparr>
                in case add_answer of
                     Inl e \<Rightarrow> (Inl e, st)
                   | Inr new_id \<Rightarrow>
                       (Inr (script \<lparr> script_id := Some new_id \<rparr>),
                        st(new_id \<mapsto> toFirestore script))))"

definition createScript ::
  "store \<Rightarrow> ScriptData \<Rightarrow> string option \<Rightarrow> timestamp \<Rightarrow> string \<Rightarrow> (error + Script) \<times> store"
where
  "createScript st scriptData userId now new_id =
     createScript_with st scriptData userId now (Inr new_id)"

definition updateScript ::
  "store \<Rightarrow> string \<Rightarrow> ScriptData \<Rightarrow> string option \<Rightarrow> timestamp \<Rightarrow> timestamp
     \<Rightarrow> (error + Script) \<times> store"
where
  "updateScript st scriptId updateData userId now server_now =
     (case getScript st scriptId userId now of
        Inl e \<Rightarrow> (Inl e, st)
      | Inr existingScript \<Rightarrow>
          (let updatedScript =
                 Script_new
                   ((merge (spread existingScript) updateData)
                      \<lparr> data_id := Present scriptId, data_updated_at := Present now \<rparr>)
                   now
           in case validate updatedScript of
                Inl e \<Rightarrow> (Inl e, st)
              | Inr validation \<Rightarrow>
                  if \<not> isValid validation then
                    (Inl (Error (''Validation failed: '' @ join '', '' (errors validation))),
                     st)
                  else
                    (let updatedScript =
                           updatedScript \<lparr> variables := extractVariables updatedScript \<rparr>
                     in case collection_update st scriptId
                               ((toFirestore updatedScript)
                                  \<lparr> data_updated_at := Present server_now \<rparr>) of
                          Inl e \<Rightarrow> (Inl e, st)
                        | Inr st' \<Rightarrow> (Inr updatedScript, st'))))"

definition deleteScript ::
  "store \<Rightarrow> string \<Rightarrow> string option \<Rightarrow> timestamp \<Rightarrow> (error + unit) \<times> store"
where
  "deleteScript st scriptId userId now =
     (case getScript st scriptId userId now of
        Inl e \<Rightarrow> (Inl e, st)
      | Inr script \<Rightarrow> (Inr (), st(scriptId := None)))"

definition duplicateScript ::
  "store \<Rightarrow> string \<Rightarrow> string option \<Rightarrow> string option \<Rightarrow> timestamp \<Rightarrow> string
     \<Rightarrow> (error + Script) \<times> store"
where
  "duplicateScript st scriptId userId newName now new_id =
     (case getScript st scriptId userId now of
        Inl e \<Rightarrow> (Inl e, st)
      | Inr originalScript \<Rightarrow>
          (let duplicatedScript =
                 Script_new
                   ((spread originalScript)
                      \<lparr> data_id := Null,
                        data_name :=
                          Present (or_string (of_nullable newName)
                                     (name originalScript @ '' (Copy)'')),
                        data_created_at := Present now,
                        data_updated_at := Present now,
                        data_performance_metrics := Present baseline_metrics \<rparr>)
                   now
           in createScript st (spread duplicatedScript) userId now new_id))"

definition service_createVersion ::
  "store \<Rightarrow> string \<Rightarrow> string option \<Rightarrow> timestamp \<Rightarrow> string \<Rightarrow> (error + Script) \<times> store"
where
  "service_createVersion st scriptId userId now new_id =
     (case getScript st scriptId userId now of
        Inl e \<Rightarrow> (Inl e, st)
      | Inr originalScript \<Rightarrow>
          createScript st (spread (createVersion originalScript now)) userId now new_id)"

section \<open>Substitution on the heap\<close>

text \<open>
  Arrays and objects are mutable and are passed by reference. To say what
  \<^verbatim>\<open>replaceVariables\<close> leaves alone, this section gives \<^verbatim>\<open>replaceInObject\<close> and
  \<^verbatim>\<open>replaceVariables\<close> a second time, on a heap: a value is a primitive or the
  address of a cell, a cell is an array or a plain object, and the heap is the list of
  the cells allocated so far, a new cell taking the next address.
\<close>

datatype hval = HUndefined | HNull | HBool bool | HNum int | HStr string | HRef nat

datatype cell = HArr "hval list" | HObj "(string \<times> hval) list"

type_synonym heap = "cell list"

text \<open>The elements of an array, and the own enumerable members of a cell in
  enumeration order (those of an array are its elements under their indices).\<close>

fun items :: "cell \<Rightarrow> hval list" where
  "items (HArr xs) = xs"
| "items (HObj kvs) = []"

fun members :: "cell \<Rightarrow> (string \<times> hval) list" where
  "members (HObj kvs) = kvs"
| "members (HArr xs) = zip (map (\<lambda>i. number_toString (int i)) [0..<length xs]) xs"

text \<open>Reading a member that \<^verbatim>\<open>Object.prototype\<close> does not have: the own member, or
  undefined.\<close>

definition get_member :: "(string \<times> hval) list \<Rightarrow> string \<Rightarrow> hval" where
  "get_member kvs k = (case map_of kvs k of Some v \<Rightarrow> v | None \<Rightarrow> HUndefined)"

text \<open>Defining a member of an object: a member of that name keeps its place and takes
  the value, a new one comes last.\<close>

fun set_member :: "(string \<times> hval) list \<Rightarrow> string \<Rightarrow> hval \<Rightarrow> (string \<times> hval) list" where
  "set_member [] k v = [(k, v)]"
| "set_member (kv # kvs) k v = (if fst kv = k then (k, v) # kvs else kv # set_member kvs k v)"

text \<open>
  \<open>push h r v\<close> is the step of \<^verbatim>\<open>Array.prototype.map\<close> that stores the next element
  of the new array at \<open>r\<close>; \<open>assign h r k v\<close> is \<^verbatim>\<open>result[key] = value\<close> on the plain
  object at \<open>r\<close>, which for the key \<^verbatim>\<open>__proto__\<close> defines no member.
\<close>

definition push :: "heap \<Rightarrow> nat \<Rightarrow> hval \<Rightarrow> heap" where
  "push h r v = h[r := HArr (items (h ! r) @ [v])]"

definition assign :: "heap \<Rightarrow> nat \<Rightarrow> string \<Rightarrow> hval \<Rightarrow> heap" where
  "assign h r k v =
     (if k = ''__proto__'' then h else h[r := HObj (set_member (members (h ! r)) k v)])"

text \<open>
  \<^verbatim>\<open>replaceInObject\<close> on the heap. The first argument is the depth of calls that the
  stack still allows: a structure that is nested deeper (a cyclic one is) makes the
  call throw \<^verbatim>\<open>RangeError\<close>, which is the result \<open>None\<close> (as it is, for want of
  another, at an address outside the heap, which no value holds). For an array,
  \<^verbatim>\<open>obj.map\<close> allocates the new array and fills it element by element (\<open>map_h\<close>); for
  an object, \<^verbatim>\<open>const result = {}\<close> allocates the new object and the loop over
  \<^verbatim>\<open>Object.entries(obj)\<close> assigns its members (\<open>entries_h\<close>). The result is the value
  returned and the heap after the call.
\<close>

fun replaceInObject_h ::
    "nat \<Rightarrow> (string \<rightharpoonup> string) \<Rightarrow> heap \<Rightarrow> hval \<Rightarrow> (hval \<times> heap) option"
  and map_h :: "nat \<Rightarrow> (string \<rightharpoonup> string) \<Rightarrow> heap \<Rightarrow> nat \<Rightarrow> hval list \<Rightarrow> heap option"
  and entries_h ::
    "nat \<Rightarrow> (string \<rightharpoonup> string) \<Rightarrow> heap \<Rightarrow> nat \<Rightarrow> (string \<times> hval) list \<Rightarrow> heap option"
where
  "replaceInObject_h 0 V h obj = None"
| "replaceInObject_h (Suc n) V h (HRef a) =
     (if a < length h then
        (case h ! a of
           HArr xs \<Rightarrow>
             map_option (Pair (HRef (length h))) (map_h n V (h @ [HArr []]) (length h) xs)
         | HObj kvs \<Rightarrow>
             map_option (Pair (HRef (length h)))
               (entries_h n V (h @ [HObj []]) (length h) kvs))
      else None)"
| "replaceInObject_h (Suc n) V h (HStr s) = Some (HStr (replaceInString V s), h)"
| "replaceInObject_h (Suc n) V h HUndefined = Some (HUndefined, h)"
| "replaceInObject_h (Suc n) V h HNull = Some (HNull, h)"
| "replaceInObject_h (Suc n) V h (HBool b) = Some (HBool b, h)"
| "replaceInObject_h (Suc n) V h (HNum i) = Some (HNum i, h)"
| "map_h n V h r [] = Some h"
| "map_h n V h r (x # xs) =
     (case replaceInObject_h n V h x of
        None \<Rightarrow> None
      | Some (x', h') \<Rightarrow> map_h n V (push h' r x') r xs)"
| "entries_h n V h r [] = Some h"
| "entries_h n V h r (kv # kvs) =
     (case replaceInObject_h n V h (snd kv) of
        None \<Rightarrow> None
      | Some (v', h') \<Rightarrow> entries_h n V (assign h' r (fst kv) v') r kvs)"

text \<open>
  \<^verbatim>\<open>replaceVariables\<close> on the heap, for a script that is the object at the address
  \<open>this\<close>: \<^verbatim>\<open>{...this, content: replaceInObject(this.content)}\<close> allocates a new
  object, copies the members of the script into it, and defines its \<open>content\<close>.
\<close>

definition replaceVariables_h ::
  "nat \<Rightarrow> (string \<rightharpoonup> string) \<Rightarrow> heap \<Rightarrow> nat \<Rightarrow> (hval \<times> heap) option"
where
  "replaceVariables_h n V h this =
     (if this < length h then
        (let r = length h;
             h1 = h @ [HObj (members (h ! this))]
         in case replaceInObject_h n V h1 (get_member (members (h1 ! this)) ''content'') of
              None \<Rightarrow> None
            | Some (c, h2) \<Rightarrow>
                Some (HRef r, h2[r := HObj (set_member (members (h2 ! r)) ''content'' c)]))
      else None)"
section \<open>Notions used to state the properties\<close>

text \<open>
  The placeholders of a string, in the order in which the pattern finds them, and the
  text of the string outside them.
\<close>

function placeholders :: "string \<Rightarrow> string list" where
  "placeholders str =
     (case variableRegex_exec str of
        None \<Rightarrow> []
      | Some (pre, tok, rest) \<Rightarrow> tok # placeholders rest)"
  by pat_completeness auto
termination
  by (relation "measure length") (auto dest: variableRegex_exec_shorter)

declare placeholders.simps [simp del]

function literal_text :: "string \<Rightarrow> string" where
  "literal_text str =
     (case variableRegex_exec str of
        None \<Rightarrow> str
      | Some (pre, tok, rest) \<Rightarrow> pre @ literal_text rest)"
  by pat_completeness auto
termination
  by (relation "measure length") (auto dest: variableRegex_exec_shorter)

declare literal_text.simps [simp del]

text \<open>The string leaves of a content structure, and the structures built without
  key-value mappings.\<close>

fun string_leaves :: "jsval \<Rightarrow> string list" where
  "string_leaves (JStr s) = [s]"
| "string_leaves (JArr xs) = concat (map string_leaves xs)"
| "string_leaves (JObj kvs) = concat (map (\<lambda>kv. string_leaves (snd kv)) kvs)"
| "string_leaves v = []"

fun mapping_free :: "jsval \<Rightarrow> bool" where
  "mapping_free (JObj kvs) = False"
| "mapping_free (JArr xs) = list_all mapping_free xs"
| "mapping_free v = True"

text \<open>
  A string has no open brace when every opening brace in it is followed, somewhere
  later in it, by a closing brace.
\<close>

fun no_open_brace :: "string \<Rightarrow> bool" where
  "no_open_brace [] = True"
| "no_open_brace (c # cs) =
     ((if c = CHR ''{'' then CHR ''}'' \<in> set cs else True) \<and> no_open_brace cs)"

text \<open>The structures in which no object has a member named \<^verbatim>\<open>__proto__\<close>.\<close>

fun proto_free :: "jsval \<Rightarrow> bool" where
  "proto_free (JObj kvs) = list_all (\<lambda>kv. fst kv \<noteq> ''__proto__'' \<and> proto_free (snd kv)) kvs"
| "proto_free (JArr xs) = list_all proto_free xs"
| "proto_free v = True"

text \<open>
  A value on the heap represents a content structure when it is the same primitive,
  or the address of an array whose elements represent the elements, or the address of
  an object whose members have the keys of the mapping, which are distinct, and
  represent its values. \<open>represents_in lo hi h v t\<close> says so with every address that
  is followed lying from \<open>lo\<close> up to, and not including, \<open>hi\<close>. The height of a
  structure is the depth of its nesting.
\<close>

fun represents_in :: "nat \<Rightarrow> nat \<Rightarrow> heap \<Rightarrow> hval \<Rightarrow> jsval \<Rightarrow> bool" where
  "represents_in lo hi h v JNull = (v = HNull)"
| "represents_in lo hi h v (JBool b) = (v = HBool b)"
| "represents_in lo hi h v (JNum i) = (v = HNum i)"
| "represents_in lo hi h v (JStr s) = (v = HStr s)"
| "represents_in lo hi h v (JArr ts) =
     (case v of
        HRef a \<Rightarrow>
          lo \<le> a \<and> a < hi \<and> a < length h
          \<and> (case h ! a of
                HArr xs \<Rightarrow> list_all2 (\<lambda>x t. represents_in lo hi h x t) xs ts
              | HObj kvs \<Rightarrow> False)
      | _ \<Rightarrow> False)"
| "represents_in lo hi h v (JObj kts) =
     (case v of
        HRef a \<Rightarrow>
          lo \<le> a \<and> a < hi \<and> a < length h \<and> distinct (map fst kts)
          \<and> (case h ! a of
                HObj kvs \<Rightarrow>
                  list_all2 (\<lambda>kv kt. fst kv = fst kt \<and> represents_in lo hi h (snd kv) (snd kt))
                    kvs kts
              | HArr xs \<Rightarrow> False)
      | _ \<Rightarrow> False)"

fun height :: "jsval \<Rightarrow> nat" where
  "height (JArr ts) = Suc (foldr max (map height ts) 0)"
| "height (JObj kts) = Suc (foldr max (map (\<lambda>kt. height (snd kt)) kts) 0)"
| "height t = 0"

section \<open>Properties of the constructor and of versioning\<close>

lemma or_null_idem: "or_null (of_nullable (or_null a)) = or_null a"
  by (simp add: or_null_def of_nullable_def split: field.splits)

lemma or_null_not_empty: "or_null a \<noteq> Some []"
  by (simp add: or_null_def split: field.splits)

lemma truthy_or_value: "truthy b \<Longrightarrow> truthy (or_value a b)"
  by (simp add: or_value_def split: field.splits)

lemma or_value_truthy: "truthy v \<Longrightarrow> or_value (Present v) b = v"
  by (simp add: or_value_def)

lemma truthy_content_new: "truthy (content (Script_new d now))"
  by (simp add: Script_new_def truthy_or_value default_content_def)

lemma truthy_settings_new: "truthy (settings (Script_new d now))"
  by (simp add: Script_new_def truthy_or_value default_settings_def)

lemma script_id_new: "script_id (Script_new d now) \<noteq> Some []"
  by (simp add: Script_new_def or_null_not_empty)

lemma version_new: "version (Script_new d now) \<noteq> 0"
  by (simp add: Script_new_def or_number_def split: field.splits)

text \<open>The constructor never leaves the content null, so \<open>validate\<close> does not throw on
  a script it built.\<close>

lemma validate_new:
  "validate (Script_new d now) =
     Inr \<lparr> isValid = (validate_errors (Script_new d now) = []),
           errors = validate_errors (Script_new d now) \<rparr>"
proof -
  have "content (Script_new d now) \<noteq> JNull"
    using truthy_content_new [of d now] by auto
  then show ?thesis by (simp add: validate_def)
qed

text \<open>
  Claim C10. A script that was never persisted (its id is null) yields, through
  \<open>createVersion\<close>, a script whose \<open>parent_script_id\<close> is null: the constructor
  turns the null id it is handed into a null parent reference.
\<close>

theorem createVersion_unsaved_parent_null:
  "script_id s = None \<Longrightarrow> parent_script_id (createVersion s now) = None"
  by (simp add: createVersion_def Script_new_def or_null_def of_nullable_def)

theorem createVersion_unsaved_parent_null_witness:
  "script_id (Script_new no_data 0) = None
   \<and> parent_script_id (createVersion (Script_new no_data 0) 1) = None"
proof -
  have h: "script_id (Script_new no_data 0) = None"
    by (simp add: Script_new_def no_data_def or_null_def)
  show ?thesis
    using h createVersion_unsaved_parent_null [OF h, of 1] by simp
qed

subsection \<open>The sum that \<open>createVersion\<close> computes\<close>

lemma bit_length_lower: "0 < x \<Longrightarrow> 2 ^ (bit_length x - 1) \<le> x"
proof (induction x rule: bit_length.induct)
  case (1 n)
  show ?case
  proof (cases "n div 2 \<le> 0")
    case True
    then have "bit_length (n div 2) = 0" by (simp add: bit_length.simps [of "n div 2"])
    then have "bit_length n = 1" using "1.prems" by (simp add: bit_length.simps [of n])
    then show ?thesis using "1.prems" by simp
  next
    case False
    then have p: "0 < n div 2" by simp
    have ih: "2 ^ (bit_length (n div 2) - 1) \<le> n div 2"
      using "1.IH" "1.prems" p by simp
    have b: "bit_length n = Suc (bit_length (n div 2))"
      using "1.prems" by (simp add: bit_length.simps [of n])
    have "0 < bit_length (n div 2)"
      using p by (simp add: bit_length.simps [of "n div 2"])
    then have "(2::int) ^ (bit_length n - 1) = 2 * 2 ^ (bit_length (n div 2) - 1)"
      using b by (cases "bit_length (n div 2)") simp_all
    also have "\<dots> \<le> 2 * (n div 2)" using ih by simp
    also have "\<dots> \<le> n" by simp
    finally show ?thesis .
  qed
qed

lemma round_double_exact: "\<bar>n\<bar> < 2 ^ 53 \<Longrightarrow> round_double n = n"
  by (simp add: round_double_def)

lemma round_double_not_zero: "n \<noteq> 0 \<Longrightarrow> round_double n \<noteq> 0"
proof (cases "\<bar>n\<bar> < 2 ^ 53")
  case True
  assume "n \<noteq> 0"
  then show ?thesis using True by (simp add: round_double_def)
next
  case False
  assume n: "n \<noteq> 0"
  let ?k = "bit_length \<bar>n\<bar> - 53"
  let ?q = "\<bar>n\<bar> div 2 ^ ?k"
  have pos: "0 < \<bar>n\<bar>" using n by simp
  have "(2::int) ^ ?k \<le> 2 ^ (bit_length \<bar>n\<bar> - 1)"
    by (rule power_increasing) simp_all
  also have "\<dots> \<le> \<bar>n\<bar>" using pos by (rule bit_length_lower)
  finally have le: "(2::int) ^ ?k \<le> \<bar>n\<bar>" .
  have "1 \<le> ?q"
  proof -
    have "(2::int) ^ ?k div 2 ^ ?k \<le> \<bar>n\<bar> div 2 ^ ?k"
      using le by (intro zdiv_mono1) simp_all
    then show ?thesis by simp
  qed
  then have q: "0 < ?q" and q1: "0 < ?q + 1" by simp_all
  have s: "sgn n \<noteq> 0" using n by (auto simp: sgn_if)
  show ?thesis
    using False s q q1 by (simp add: round_double_def Let_def)
qed

lemma js_add_one_not_zero: "n \<noteq> - 1 \<Longrightarrow> js_add n 1 \<noteq> 0"
  unfolding js_add_def by (rule round_double_not_zero) simp

lemma js_add_max_safe: "js_add (2 ^ 53 - 1) 1 = 2 ^ 53"
  by (simp add: js_add_def round_double_def Let_def bit_length.simps)

lemma js_add_one_exact:
  assumes "- (2 ^ 53) \<le> n" and "n < 2 ^ 53"
  shows "js_add n 1 = n + 1"
proof (cases "n = 2 ^ 53 - 1")
  case True
  then show ?thesis using js_add_max_safe by simp
next
  case False
  then have "\<bar>n + 1\<bar> < 2 ^ 53" using assms by simp
  then show ?thesis by (simp add: js_add_def round_double_exact)
qed

text \<open>Above the safe integers the sum is not the successor: at \<open>2^53\<close> it is \<open>2^53\<close>
  again.\<close>

lemma js_add_unsafe: "js_add (2 ^ 53) 1 = 2 ^ 53"
  by (simp add: js_add_def round_double_def Let_def bit_length.simps)

text \<open>
  Claim C7, as amended. For every script \<open>s\<close> built by the constructor whose version is
  not \<open>-1\<close>, \<open>createVersion\<close> returns a script with no id, the version that the
  addition \<^verbatim>\<open>this.version + 1\<close> computes, \<open>parent_script_id\<close> equal to the id of
  \<open>s\<close>, the content, settings and tags of \<open>s\<close>, and the baseline metrics. The
  computed version is the integer \<open>version s + 1\<close> whenever the version of \<open>s\<close> is
  an integer from \<open>-2^53\<close> to \<open>2^53 - 1\<close>. (At version \<open>-1\<close> the sum is \<open>0\<close>,
  which the constructor replaces by its default \<open>1\<close>.)
\<close>

theorem createVersion_fields:
  assumes "s = Script_new d t" and "version s \<noteq> - 1"
  shows "script_id (createVersion s now) = None
         \<and> version (createVersion s now) = js_add (version s) 1
         \<and> (- (2 ^ 53) \<le> version s \<and> version s < 2 ^ 53
              \<longrightarrow> version (createVersion s now) = version s + 1)
         \<and> parent_script_id (createVersion s now) = script_id s
         \<and> content (createVersion s now) = content s
         \<and> settings (createVersion s now) = settings s
         \<and> tags (createVersion s now) = tags s
         \<and> performance_metrics (createVersion s now) = baseline_metrics"
proof -
  have c: "or_value (Present (content s)) default_content = content s"
    using assms(1) truthy_content_new [of d t] by (simp add: or_value_truthy)
  have g: "or_value (Present (settings s)) default_settings = settings s"
    using assms(1) truthy_settings_new [of d t] by (simp add: or_value_truthy)
  have i: "or_null (of_nullable (script_id s)) = script_id s"
    using assms(1) by (simp add: Script_new_def or_null_idem)
  have v: "or_number (Present (js_add (version s) 1)) 1 = js_add (version s) 1"
    using js_add_one_not_zero [OF assms(2)] by (simp add: or_number_def)
  have e: "js_add (version s) 1 = version s + 1"
    if "- (2 ^ 53) \<le> version s \<and> version s < 2 ^ 53"
    using that by (simp add: js_add_one_exact)
  have "version (createVersion s now) = js_add (version s) 1"
    using v by (simp add: createVersion_def Script_new_def)
  moreover have "script_id (createVersion s now) = None"
    by (simp add: createVersion_def Script_new_def or_null_def)
  moreover have "parent_script_id (createVersion s now) = script_id s"
    using i by (simp add: createVersion_def Script_new_def)
  moreover have "content (createVersion s now) = content s"
    using c by (simp add: createVersion_def Script_new_def spread_def)
  moreover have "settings (createVersion s now) = settings s"
    using g by (simp add: createVersion_def Script_new_def spread_def)
  moreover have "tags (createVersion s now) = tags s"
    by (simp add: createVersion_def Script_new_def spread_def or_object_def)
  moreover have "performance_metrics (createVersion s now) = baseline_metrics"
    by (simp add: createVersion_def Script_new_def or_object_def)
  ultimately show ?thesis using e by simp
qed

theorem createVersion_fields_witness:
  "version (Script_new (no_data \<lparr> data_id := Present ''s1'', data_version := Present 3 \<rparr>) 0) \<noteq> - 1
   \<and> script_id (createVersion
        (Script_new (no_data \<lparr> data_id := Present ''s1'', data_version := Present 3 \<rparr>) 0) 1) = None
   \<and> version (createVersion
        (Script_new (no_data \<lparr> data_id := Present ''s1'', data_version := Present 3 \<rparr>) 0) 1) = 4
   \<and> parent_script_id (createVersion
        (Script_new (no_data \<lparr> data_id := Present ''s1'', data_version := Present 3 \<rparr>) 0) 1)
       = Some ''s1''
   \<and> version (Script_new (no_data \<lparr> data_version := Present (2 ^ 53) \<rparr>) 0) = 2 ^ 53
   \<and> version (createVersion
        (Script_new (no_data \<lparr> data_version := Present (2 ^ 53) \<rparr>) 0) 1) = 2 ^ 53"
proof -
  let ?s = "Script_new (no_data \<lparr> data_id := Present ''s1'', data_version := Present 3 \<rparr>) 0"
  let ?b = "Script_new (no_data \<lparr> data_version := Present (2 ^ 53) \<rparr>) 0"
  have v: "version ?s = 3"
    by (simp add: Script_new_def no_data_def or_number_def)
  have i: "script_id ?s = Some ''s1''"
    by (simp add: Script_new_def no_data_def or_null_def)
  have h: "version ?s \<noteq> - 1" using v by simp
  have a: "version ?s \<noteq> - 1
           \<and> script_id (createVersion ?s 1) = None
           \<and> version (createVersion ?s 1) = 4
           \<and> parent_script_id (createVersion ?s 1) = Some ''s1''"
    using createVersion_fields [OF refl h, of 1] v i by simp
  have w: "version ?b = 2 ^ 53"
    by (simp add: Script_new_def no_data_def or_number_def)
  have g: "version ?b \<noteq> - 1" using w by simp
  have "version (createVersion ?b 1) = js_add (version ?b) 1"
    using createVersion_fields [OF refl g, of 1] by blast
  then have b: "version (createVersion ?b 1) = 2 ^ 53"
    using w js_add_unsafe by simp
  show ?thesis using a w b by blast
qed

theorem createVersion_minus_one_counterexample:
  "version (createVersion (Script_new (no_data \<lparr> data_version := Present (- 1) \<rparr>) 0) 1)
   \<noteq> version (Script_new (no_data \<lparr> data_version := Present (- 1) \<rparr>) 0) + 1"
  by (simp add: createVersion_def Script_new_def spread_def no_data_def or_number_def
      js_add_def round_double_def)

section \<open>Properties of the service\<close>

text \<open>Each rule of \<open>validate\<close> that is violated contributes its message: the checks
  accumulate and none hides another.\<close>

lemma validate_errors_rules:
  "(''Script name is required'' \<in> set (validate_errors s))
     = (name s = [] \<or> trim (name s) = [])"
  "(''Script name must be less than 100 characters'' \<in> set (validate_errors s))
     = (name s \<noteq> [] \<and> length (name s) > 100)"
  "(''Script type must be call, sms, or email'' \<in> set (validate_errors s))
     = (type s \<notin> set [''call'', ''sms'', ''email''])"
  "(''Invalid tone specified'' \<in> set (validate_errors s))
     = (tone s \<notin> set [''professional'', ''casual'', ''friendly'', ''assertive''])"
  "(''Invalid status specified'' \<in> set (validate_errors s))
     = (status s \<notin> set [''draft'', ''active'', ''archived''])"
  "(''Opening script is required for call scripts'' \<in> set (validate_errors s))
     = (type s = ''call'' \<and> falsy_prop (get_prop (content s) ''opening''))"
  "(''Main points are required for SMS scripts'' \<in> set (validate_errors s))
     = (type s = ''sms'' \<and> main_points_missing (content s))"
  by (simp_all add: validate_errors_def)

text \<open>The errors that \<open>getScript\<close> throws are plain \<^verbatim>\<open>Error\<close> objects with one of
  two messages.\<close>

lemma getScript_Inl:
  "getScript st scriptId userId now = Inl e
     \<Longrightarrow> e = Error ''Script not found'' \<or> e = Error ''Access denied''"
  by (auto simp: getScript_def Let_def split: option.splits if_splits)

text \<open>
  Claim C5, as amended. When the script built from the raw record (with the owner and
  fresh timestamps) fails \<open>validate\<close>, \<open>createScript\<close> throws a plain \<^verbatim>\<open>Error\<close>
  whose message is \<^verbatim>\<open>Validation failed: \<close> followed by the messages of all the
  violated rules, joined with a comma and a space. The collection is unchanged and the
  outcome is the same whatever the storage collaborator would have answered: it has
  not been called. The code has no error classes: this error has the class of the
  errors that \<open>getScript\<close> throws (not found, access denied), and only its message
  tells it from them; and when a script passes \<open>validate\<close> and the collaborator
  rejects the \<^verbatim>\<open>add\<close>, \<open>createScript\<close> rethrows the error of the collaborator as
  it is and stores nothing.
\<close>

theorem createScript_invalid:
  assumes "validate
             (Script_new
                (scriptData \<lparr> data_created_by := of_nullable userId,
                   data_created_at := Present now, data_updated_at := Present now \<rparr>) now) = Inr v"
    and "\<not> isValid v"
  shows "createScript_with st scriptData userId now add_answer
           = (Inl (Error (''Validation failed: '' @ join '', '' (errors v))), st)
         \<and> errors v
           = validate_errors
               (Script_new
                  (scriptData \<lparr> data_created_by := of_nullable userId,
                     data_created_at := Present now, data_updated_at := Present now \<rparr>) now)
         \<and> (\<forall>st2 scriptId2 userId2 now2 e.
               getScript st2 scriptId2 userId2 now2 = Inl e
               \<longrightarrow> e \<noteq> Error (''Validation failed: '' @ join '', '' (errors v))
                   \<and> error_name e
                     = error_name (Error (''Validation failed: '' @ join '', '' (errors v))))
         \<and> (validate
               (Script_new
                  (validData \<lparr> data_created_by := of_nullable userId,
                     data_created_at := Present now, data_updated_at := Present now \<rparr>) now)
               = Inr v' \<and> isValid v'
             \<longrightarrow> createScript_with st validData userId now (Inl storage_error)
                 = (Inl storage_error, st))"
proof -
  have "createScript_with st scriptData userId now add_answer
          = (Inl (Error (''Validation failed: '' @ join '', '' (errors v))), st)"
    using assms by (simp add: createScript_with_def Let_def)
  moreover have "errors v
      = validate_errors
          (Script_new
             (scriptData \<lparr> data_created_by := of_nullable userId,
                data_created_at := Present now, data_updated_at := Present now \<rparr>) now)"
    using assms(1) by (auto simp: validate_def split: if_splits)
  moreover have "e \<noteq> Error (''Validation failed: '' @ join '', '' (errors v))
                   \<and> error_name e
                     = error_name (Error (''Validation failed: '' @ join '', '' (errors v)))"
    if "getScript st2 scriptId2 userId2 now2 = Inl e" for st2 scriptId2 userId2 now2 e
    using getScript_Inl [OF that] by auto
  moreover have "validate
               (Script_new
                  (validData \<lparr> data_created_by := of_nullable userId,
                     data_created_at := Present now, data_updated_at := Present now \<rparr>) now)
               = Inr v' \<and> isValid v'
             \<longrightarrow> createScript_with st validData userId now (Inl storage_error)
                 = (Inl storage_error, st)"
    by (simp add: createScript_with_def Let_def)
  ultimately show ?thesis by blast
qed

theorem createScript_invalid_witness:
  "createScript_with Map.empty no_data (Some ''alice'') 0 (Inr ''s1'')
     = (Inl (Error ''Validation failed: Script name is required, Opening script is required for call scripts''),
        Map.empty)
   \<and> createScript_with Map.empty no_data (Some ''alice'') 0 (Inl (Error ''unavailable''))
     = (Inl (Error ''Validation failed: Script name is required, Opening script is required for call scripts''),
        Map.empty)
   \<and> createScript_with Map.empty
         (no_data \<lparr> data_name := Present ''Intro'', data_type := Present ''email'' \<rparr>)
         (Some ''alice'') 0 (Inl (Error ''unavailable''))
     = (Inl (Error ''unavailable''), Map.empty)"
proof -
  let ?s = "Script_new (no_data \<lparr> data_created_by := of_nullable (Some ''alice''),
                          data_created_at := Present 0, data_updated_at := Present 0 \<rparr>) 0"
  let ?v = "\<lparr> isValid = False,
              errors = [''Script name is required'',
                        ''Opening script is required for call scripts''] \<rparr>"
  let ?d = "no_data \<lparr> data_name := Present ''Intro'', data_type := Present ''email'' \<rparr>"
  let ?t = "Script_new (?d \<lparr> data_created_by := of_nullable (Some ''alice''),
                          data_created_at := Present 0, data_updated_at := Present 0 \<rparr>) 0"
  have e: "validate_errors ?s
             = [''Script name is required'', ''Opening script is required for call scripts'']"
    by (simp add: validate_errors_def Script_new_def no_data_def or_string_def or_value_def
        default_content_def falsy_prop_def trim_def of_nullable_def)
  have h1: "validate ?s = Inr ?v"
    by (simp add: validate_new e)
  have h2: "\<not> isValid ?v" by simp
  have g: "validate_errors ?t = []"
    by (simp add: validate_errors_def Script_new_def no_data_def or_string_def or_value_def
        default_content_def falsy_prop_def trim_def is_space_def of_nullable_def)
  have h3: "validate ?t = Inr \<lparr> isValid = True, errors = [] \<rparr>"
    by (simp add: validate_new g)
  have a: "createScript_with Map.empty no_data (Some ''alice'') 0 (Inr ''s1'')
     = (Inl (Error ''Validation failed: Script name is required, Opening script is required for call scripts''),
        Map.empty)"
    using createScript_invalid [OF h1 h2, of Map.empty "Inr ''s1''"] by simp
  have b: "createScript_with Map.empty no_data (Some ''alice'') 0 (Inl (Error ''unavailable''))
     = (Inl (Error ''Validation failed: Script name is required, Opening script is required for call scripts''),
        Map.empty)"
    using createScript_invalid [OF h1 h2, of Map.empty "Inl (Error ''unavailable'')"] by simp
  have c: "createScript_with Map.empty ?d (Some ''alice'') 0 (Inl (Error ''unavailable''))
     = (Inl (Error ''unavailable''), Map.empty)"
    using createScript_invalid
      [OF h1 h2, where validData = ?d and v' = "\<lparr> isValid = True, errors = [] \<rparr>"
        and st = Map.empty and storage_error = "Error ''unavailable''"] h3
    by simp
  show ?thesis using a b c by simp
qed

theorem createScript_plain_error_counterexample:
  "fst (createScript Map.empty no_data (Some ''alice'') 0 ''s1'')
     = Inl (Error ''Validation failed: Script name is required, Opening script is required for call scripts'')
   \<and> getScript Map.empty ''s1'' (Some ''alice'') 0 = Inl (Error ''Script not found'')
   \<and> error_name (Error ''Validation failed: Script name is required, Opening script is required for call scripts'')
     = error_name (Error ''Script not found'')
   \<and> error_name (Error ''Validation failed: Script name is required, Opening script is required for call scripts'')
     \<noteq> ''ValidationError''"
  by (simp add: createScript_def createScript_with_def validate_def validate_errors_def
      Script_new_def no_data_def or_string_def or_value_def default_content_def
      falsy_prop_def trim_def of_nullable_def getScript_def Let_def)






lemma Script_new_sel:
  "script_id (Script_new d n) = or_null (data_id d)"
  "version (Script_new d n) = or_number (data_version d) 1"
  "parent_script_id (Script_new d n) = or_null (data_parent_script_id d)"
  "performance_metrics (Script_new d n)
     = or_object (data_performance_metrics d) baseline_metrics"
  "created_by (Script_new d n) = or_string (data_created_by d) []"
  by (simp_all add: Script_new_def)

lemma spread_sel:
  "data_id (spread s) = of_nullable (script_id s)"
  "data_version (spread s) = Present (version s)"
  "data_parent_script_id (spread s) = of_nullable (parent_script_id s)"
  "data_performance_metrics (spread s) = Present (performance_metrics s)"
  "data_created_by (spread s) = Present (created_by s)"
  by (simp_all add: spread_def)

lemma merge_sel:
  "data_version (merge a b) = over (data_version a) (data_version b)"
  "data_parent_script_id (merge a b)
     = over (data_parent_script_id a) (data_parent_script_id b)"
  "data_performance_metrics (merge a b)
     = over (data_performance_metrics a) (data_performance_metrics b)"
  by (simp_all add: merge_def)

lemma over_Absent [simp]: "over Absent b = b"
  by (simp add: over_def split: field.splits)

lemma fromFirestore_sel:
  "version (fromFirestore i d n) = or_number (data_version d) 1"
  "parent_script_id (fromFirestore i d n) = or_null (data_parent_script_id d)"
  "performance_metrics (fromFirestore i d n) = read_metrics (data_performance_metrics d)"
  by (simp_all add: fromFirestore_def Script_new_sel merge_sel no_data_def or_object_def)

lemma or_number_idem: "or_number (Present (or_number a 1)) 1 = or_number a 1"
  by (simp add: or_number_def split: field.splits)

lemma getScript_Inr:
  "st scriptId = Some data \<Longrightarrow> getScript st scriptId userId now = Inr s
     \<Longrightarrow> s = fromFirestore scriptId data now"
  by (simp add: getScript_def Let_def split: if_splits)

lemma createScript_Inr:
  assumes "createScript st d userId now new_id = (Inr s, st')"
  shows "s = (Script_new (d \<lparr> data_created_by := of_nullable userId,
                 data_created_at := Present now, data_updated_at := Present now \<rparr>) now)
               \<lparr> variables := extractVariables
                    (Script_new (d \<lparr> data_created_by := of_nullable userId,
                       data_created_at := Present now, data_updated_at := Present now \<rparr>) now),
                 script_id := Some new_id \<rparr>"
    and "st' = st(new_id \<mapsto> toFirestore s)"
  using assms
  by (auto simp: createScript_def createScript_with_def Let_def validate_new toFirestore_def
      spread_def split: if_splits)

lemma duplicateScript_example:
  "\<exists>st'. duplicateScript
     [''s1'' \<mapsto> no_data \<lparr> data_name := Present ''Intro'', data_type := Present ''email'',
                  data_content := Present (JStr ''Hello''), data_created_by := Present ''alice'',
                  data_version := Present 2, data_parent_script_id := Present ''s0'' \<rparr>]
     ''s1'' (Some ''alice'') None 1 ''s2''
   = (Inr \<lparr> script_id = Some ''s2'', name = ''Intro (Copy)'', description = [],
            type = ''email'', industry = [], language = ''en'', tone = ''professional'',
            objective = [], content = JStr ''Hello'', variables = [],
            settings = default_settings, performance_metrics = baseline_metrics,
            tags = [], status = ''draft'', created_by = ''alice'', created_at = 1,
            updated_at = 1, version = 2, parent_script_id = Some ''s0'' \<rparr>, st')"
  by (simp add: duplicateScript_def getScript_def access_denied_def fromFirestore_def
      createScript_def createScript_with_def validate_def validate_errors_def Script_new_def
      spread_def merge_def of_nullable_def read_metrics_def
      default_settings_def baseline_metrics_def no_metrics_def toFirestore_def
      over_def no_data_def or_string_def or_null_def or_value_def or_number_def
      or_object_def trim_def is_space_def Let_def extractVariables_def
      extractVariables_content_def QuoteJSONString_def json_escape_def json_escape_char_def dq_def bs_def
      extract_loop.simps variableRegex_at_def)

text \<open>
  Claim C1, as amended. When \<open>duplicateScript\<close> succeeds on a stored script, the
  duplicate has the id that the collection assigned and the baseline metrics, and it
  inherits the lineage of its source: its version is the version of the source as the
  constructor reads the stored field (the stored value, or \<open>1\<close> when it is missing or
  \<open>0\<close>), and its \<open>parent_script_id\<close> is that of the source (null when the source has
  none). So the duplicate has version \<open>1\<close> and no parent only when its source has.
\<close>

theorem duplicateScript_lineage:
  assumes "st scriptId = Some data"
    and "duplicateScript st scriptId userId newName now new_id = (Inr dup, st')"
  shows "script_id dup = Some new_id
         \<and> version dup = or_number (data_version data) 1
         \<and> parent_script_id dup = or_null (data_parent_script_id data)
         \<and> performance_metrics dup = baseline_metrics
         \<and> st' = st(new_id \<mapsto> toFirestore dup)"
proof -
  obtain orig where g: "getScript st scriptId userId now = Inr orig"
    using assms(2) by (cases "getScript st scriptId userId now") (auto simp: duplicateScript_def)
  have o: "orig = fromFirestore scriptId data now"
    using getScript_Inr [OF assms(1) g] .
  let ?d = "Script_new
              ((spread orig)
                 \<lparr> data_id := Null,
                   data_name := Present (or_string (of_nullable newName) (name orig @ '' (Copy)'')),
                   data_created_at := Present now,
                   data_updated_at := Present now,
                   data_performance_metrics := Present baseline_metrics \<rparr>) now"
  have c: "createScript st (spread ?d) userId now new_id = (Inr dup, st')"
    using assms(2) g by (simp add: duplicateScript_def Let_def)
  note r = createScript_Inr [OF c]
  have "version dup
          = or_number (Present (or_number (Present (or_number (data_version data) 1)) 1)) 1"
    by (subst r(1)) (simp add: Script_new_sel spread_sel o fromFirestore_sel)
  then have v: "version dup = or_number (data_version data) 1"
    by (simp add: or_number_idem)
  have "parent_script_id dup
          = or_null (of_nullable (or_null (of_nullable (or_null (data_parent_script_id data)))))"
    by (subst r(1)) (simp add: Script_new_sel spread_sel o fromFirestore_sel)
  then have p: "parent_script_id dup = or_null (data_parent_script_id data)"
    by (simp add: or_null_idem)
  have m: "performance_metrics dup = baseline_metrics"
    by (subst r(1)) (simp add: Script_new_sel spread_sel or_object_def)
  have i: "script_id dup = Some new_id"
    by (subst r(1)) simp
  show ?thesis using v p m i r(2) by simp
qed

theorem duplicateScript_lineage_witness:
  "\<exists>dup st'.
     duplicateScript
       [''s1'' \<mapsto> no_data \<lparr> data_name := Present ''Intro'', data_type := Present ''email'',
                    data_content := Present (JStr ''Hello''), data_created_by := Present ''alice'',
                    data_version := Present 2, data_parent_script_id := Present ''s0'' \<rparr>]
       ''s1'' (Some ''alice'') None 1 ''s2'' = (Inr dup, st')
     \<and> script_id dup = Some ''s2'' \<and> version dup = 2 \<and> parent_script_id dup = Some ''s0''
     \<and> performance_metrics dup = baseline_metrics"
proof -
  let ?doc = "no_data \<lparr> data_name := Present ''Intro'', data_type := Present ''email'',
                 data_content := Present (JStr ''Hello''), data_created_by := Present ''alice'',
                 data_version := Present 2, data_parent_script_id := Present ''s0'' \<rparr>"
  obtain dup st' where
    h2: "duplicateScript [''s1'' \<mapsto> ?doc] ''s1'' (Some ''alice'') None 1 ''s2'' = (Inr dup, st')"
    using duplicateScript_example by blast
  have h1: "[''s1'' \<mapsto> ?doc] ''s1'' = Some ?doc" by simp
  have "script_id dup = Some ''s2'' \<and> version dup = 2 \<and> parent_script_id dup = Some ''s0''
        \<and> performance_metrics dup = baseline_metrics"
    using duplicateScript_lineage [OF h1 h2]
    by (simp add: no_data_def or_number_def or_null_def)
  then show ?thesis using h2 by blast
qed

theorem duplicateScript_keeps_lineage_counterexample:
  "fst (duplicateScript
          [''s1'' \<mapsto> no_data \<lparr> data_name := Present ''Intro'', data_type := Present ''email'',
                       data_content := Present (JStr ''Hello''), data_created_by := Present ''alice'',
                       data_version := Present 2, data_parent_script_id := Present ''s0'' \<rparr>]
          ''s1'' (Some ''alice'') None 1 ''s2'')
   = Inr \<lparr> script_id = Some ''s2'', name = ''Intro (Copy)'', description = [],
           type = ''email'', industry = [], language = ''en'', tone = ''professional'',
           objective = [], content = JStr ''Hello'', variables = [],
           settings = default_settings, performance_metrics = baseline_metrics,
           tags = [], status = ''draft'', created_by = ''alice'', created_at = 1,
           updated_at = 1, version = 2, parent_script_id = Some ''s0'' \<rparr>"
proof -
  obtain st' where
    "duplicateScript
          [''s1'' \<mapsto> no_data \<lparr> data_name := Present ''Intro'', data_type := Present ''email'',
                       data_content := Present (JStr ''Hello''), data_created_by := Present ''alice'',
                       data_version := Present 2, data_parent_script_id := Present ''s0'' \<rparr>]
          ''s1'' (Some ''alice'') None 1 ''s2''
   = (Inr \<lparr> script_id = Some ''s2'', name = ''Intro (Copy)'', description = [],
           type = ''email'', industry = [], language = ''en'', tone = ''professional'',
           objective = [], content = JStr ''Hello'', variables = [],
           settings = default_settings, performance_metrics = baseline_metrics,
           tags = [], status = ''draft'', created_by = ''alice'', created_at = 1,
           updated_at = 1, version = 2, parent_script_id = Some ''s0'' \<rparr>, st')"
    using duplicateScript_example by blast
  then show ?thesis by (rule arg_cong [where f = fst, THEN trans]) (rule fst_conv)
qed

lemma collection_update_Some:
  "st doc_id = Some old
     \<Longrightarrow> collection_update st doc_id changes = Inr (st(doc_id \<mapsto> merge old changes))"
  by (simp add: collection_update_def)

lemma updateScript_Inr:
  assumes "st scriptId = Some data"
    and "updateScript st scriptId updateData userId now server_now = (Inr updated, st')"
  shows "updated
           = (Script_new
                ((merge (spread (fromFirestore scriptId data now)) updateData)
                   \<lparr> data_id := Present scriptId, data_updated_at := Present now \<rparr>) now)
               \<lparr> variables := extractVariables
                    (Script_new
                       ((merge (spread (fromFirestore scriptId data now)) updateData)
                          \<lparr> data_id := Present scriptId, data_updated_at := Present now \<rparr>) now) \<rparr>"
    and "st' = st(scriptId \<mapsto>
                   merge data ((toFirestore updated) \<lparr> data_updated_at := Present server_now \<rparr>))"
proof -
  obtain ex where g: "getScript st scriptId userId now = Inr ex"
    using assms(2) by (cases "getScript st scriptId userId now") (auto simp: updateScript_def)
  have e: "ex = fromFirestore scriptId data now"
    using getScript_Inr [OF assms(1) g] .
  show "updated
           = (Script_new
                ((merge (spread (fromFirestore scriptId data now)) updateData)
                   \<lparr> data_id := Present scriptId, data_updated_at := Present now \<rparr>) now)
               \<lparr> variables := extractVariables
                    (Script_new
                       ((merge (spread (fromFirestore scriptId data now)) updateData)
                          \<lparr> data_id := Present scriptId, data_updated_at := Present now \<rparr>) now) \<rparr>"
    using assms g e
    by (auto simp: updateScript_def Let_def validate_new collection_update_def
        split: if_splits)
  show "st' = st(scriptId \<mapsto>
                   merge data ((toFirestore updated) \<lparr> data_updated_at := Present server_now \<rparr>))"
    using assms g e
    by (auto simp: updateScript_def Let_def validate_new collection_update_def
        split: if_splits)
qed

lemma read_metrics_Present:
  "last_used m \<noteq> Absent \<Longrightarrow> read_metrics (Present m) = m"
  by (cases "last_used m") (simp_all add: read_metrics_def read_last_used_def)

lemma updateScript_examples:
  "\<exists>updated st'.
     updateScript
       [''s1'' \<mapsto> no_data \<lparr> data_name := Present ''Intro'', data_type := Present ''email'',
                    data_content := Present (JStr ''Hello''), data_created_by := Present ''alice'',
                    data_performance_metrics := Present baseline_metrics \<rparr>]
       ''s1'' (no_data \<lparr> data_name := Present ''Renamed'' \<rparr>) (Some ''alice'') 1 2
     = (Inr updated, st')"
  "\<exists>updated st'.
     updateScript
       [''s1'' \<mapsto> no_data \<lparr> data_name := Present ''Intro'', data_type := Present ''email'',
                    data_content := Present (JStr ''Hello''), data_created_by := Present ''alice'' \<rparr>]
       ''s1'' (no_data \<lparr> data_name := Present ''Renamed'' \<rparr>) (Some ''alice'') 1 2
     = (Inr updated, st')"
  "\<exists>updated st'.
     updateScript
       [''s1'' \<mapsto> no_data \<lparr> data_name := Present ''Intro'', data_type := Present ''email'',
                    data_content := Present (JStr ''Hello''), data_created_by := Present ''alice'',
                    data_performance_metrics :=
                      Present (baseline_metrics \<lparr> total_uses := Some 7 \<rparr>) \<rparr>]
       ''s1'' (no_data \<lparr> data_performance_metrics := Null \<rparr>) (Some ''alice'') 1 2
     = (Inr updated, st')"
  "\<exists>updated st'.
     updateScript
       [''s1'' \<mapsto> no_data \<lparr> data_name := Present ''Intro'', data_type := Present ''email'',
                    data_content := Present (JStr ''Hello''), data_created_by := Present ''alice'',
                    data_performance_metrics := Present baseline_metrics \<rparr>]
       ''s1''
       (no_data \<lparr> data_performance_metrics :=
                    Present (baseline_metrics \<lparr> total_uses := Some 99 \<rparr>) \<rparr>)
       (Some ''alice'') 1 2
     = (Inr updated, st')"
  by (simp_all add: updateScript_def getScript_def access_denied_def fromFirestore_def
      validate_def validate_errors_def Script_new_def spread_def merge_def
      collection_update_def of_nullable_def read_metrics_def read_last_used_def
      default_settings_def baseline_metrics_def no_metrics_def toFirestore_def
      over_def no_data_def or_string_def or_null_def or_value_def or_number_def
      or_object_def trim_def is_space_def Let_def extractVariables_def
      extractVariables_content_def QuoteJSONString_def json_escape_def json_escape_char_def
      dq_def bs_def extract_loop.simps variableRegex_at_def)

text \<open>
  Claim C2, as amended. When \<open>updateScript\<close> succeeds on a stored script, the metrics
  of the returned script are decided by the \<open>performance_metrics\<close> field of the patch,
  and they are what the stored document holds afterwards. With no such field in the
  patch they are the stored metrics as \<open>getScript\<close> reads them: the stored object with
  \<open>last_used\<close> set to null when it has none, and the object with the one member
  \<open>last_used\<close>, null, when the document has no metrics object; so a stored metrics
  object that has a \<open>last_used\<close> member is left as it is. With the field set to an
  object, that object replaces the stored metrics; with the field set to null, the
  baseline does. The update is a shallow merge of the patch over the stored record,
  and no field is exempt from it. No other document of the collection changes.
\<close>

theorem updateScript_metrics:
  assumes "st scriptId = Some data"
    and "updateScript st scriptId updateData userId now server_now = (Inr updated, st')"
  shows "(data_performance_metrics updateData = Absent
            \<longrightarrow> performance_metrics updated = read_metrics (data_performance_metrics data))
         \<and> (data_performance_metrics updateData = Absent
              \<and> data_performance_metrics data = Present m0 \<and> last_used m0 \<noteq> Absent
            \<longrightarrow> performance_metrics updated = m0
                \<and> map_option data_performance_metrics (st' scriptId) = Some (Present m0))
         \<and> (data_performance_metrics updateData = Null
            \<longrightarrow> performance_metrics updated = baseline_metrics)
         \<and> (data_performance_metrics updateData = Present m
            \<longrightarrow> performance_metrics updated = m)
         \<and> map_option data_performance_metrics (st' scriptId)
             = Some (Present (performance_metrics updated))
         \<and> (\<forall>k. k \<noteq> scriptId \<longrightarrow> st' k = st k)"
proof -
  note r = updateScript_Inr [OF assms]
  have p: "performance_metrics updated
             = or_object
                 (over (Present (read_metrics (data_performance_metrics data)))
                    (data_performance_metrics updateData))
                 baseline_metrics"
    by (subst r(1)) (simp add: Script_new_sel merge_sel spread_sel fromFirestore_sel)
  have s: "map_option data_performance_metrics (st' scriptId)
             = Some (Present (performance_metrics updated))"
    by (subst r(2)) (simp add: toFirestore_def spread_sel merge_sel over_def)
  have f: "\<forall>k. k \<noteq> scriptId \<longrightarrow> st' k = st k"
    by (subst r(2)) simp
  have a: "data_performance_metrics updateData = Absent
            \<longrightarrow> performance_metrics updated = read_metrics (data_performance_metrics data)"
    using p by (simp add: over_def or_object_def)
  have b: "data_performance_metrics updateData = Absent
              \<and> data_performance_metrics data = Present m0 \<and> last_used m0 \<noteq> Absent
            \<longrightarrow> performance_metrics updated = m0
                \<and> map_option data_performance_metrics (st' scriptId) = Some (Present m0)"
    using a s by (auto simp: read_metrics_Present)
  have c: "data_performance_metrics updateData = Null
            \<longrightarrow> performance_metrics updated = baseline_metrics"
    using p by (simp add: over_def or_object_def)
  have d: "data_performance_metrics updateData = Present m
            \<longrightarrow> performance_metrics updated = m"
    using p by (simp add: over_def or_object_def)
  show ?thesis using a b c d s f by blast
qed

theorem updateScript_metrics_witness:
  "(\<exists>updated st'.
      updateScript
        [''s1'' \<mapsto> no_data \<lparr> data_name := Present ''Intro'', data_type := Present ''email'',
                     data_content := Present (JStr ''Hello''), data_created_by := Present ''alice'',
                     data_performance_metrics := Present baseline_metrics \<rparr>]
        ''s1'' (no_data \<lparr> data_name := Present ''Renamed'' \<rparr>) (Some ''alice'') 1 2
        = (Inr updated, st')
      \<and> performance_metrics updated = baseline_metrics
      \<and> map_option data_performance_metrics (st' ''s1'') = Some (Present baseline_metrics)
      \<and> st' ''s2'' = None)
   \<and> (\<exists>updated st'.
      updateScript
        [''s1'' \<mapsto> no_data \<lparr> data_name := Present ''Intro'', data_type := Present ''email'',
                     data_content := Present (JStr ''Hello''), data_created_by := Present ''alice'' \<rparr>]
        ''s1'' (no_data \<lparr> data_name := Present ''Renamed'' \<rparr>) (Some ''alice'') 1 2
        = (Inr updated, st')
      \<and> performance_metrics updated = no_metrics
      \<and> map_option data_performance_metrics (st' ''s1'') = Some (Present no_metrics))
   \<and> (\<exists>updated st'.
      updateScript
        [''s1'' \<mapsto> no_data \<lparr> data_name := Present ''Intro'', data_type := Present ''email'',
                     data_content := Present (JStr ''Hello''), data_created_by := Present ''alice'',
                     data_performance_metrics :=
                       Present (baseline_metrics \<lparr> total_uses := Some 7 \<rparr>) \<rparr>]
        ''s1'' (no_data \<lparr> data_performance_metrics := Null \<rparr>) (Some ''alice'') 1 2
        = (Inr updated, st')
      \<and> performance_metrics updated = baseline_metrics
      \<and> map_option data_performance_metrics (st' ''s1'') = Some (Present baseline_metrics))
   \<and> (\<exists>updated st'.
      updateScript
        [''s1'' \<mapsto> no_data \<lparr> data_name := Present ''Intro'', data_type := Present ''email'',
                     data_content := Present (JStr ''Hello''), data_created_by := Present ''alice'',
                     data_performance_metrics := Present baseline_metrics \<rparr>]
        ''s1''
        (no_data \<lparr> data_performance_metrics :=
                     Present (baseline_metrics \<lparr> total_uses := Some 99 \<rparr>) \<rparr>)
        (Some ''alice'') 1 2
        = (Inr updated, st')
      \<and> performance_metrics updated = baseline_metrics \<lparr> total_uses := Some 99 \<rparr>
      \<and> map_option data_performance_metrics (st' ''s1'')
          = Some (Present (baseline_metrics \<lparr> total_uses := Some 99 \<rparr>)))"
proof -
  let ?base = "no_data \<lparr> data_name := Present ''Intro'', data_type := Present ''email'',
                 data_content := Present (JStr ''Hello''), data_created_by := Present ''alice'' \<rparr>"
  let ?doc = "no_data \<lparr> data_name := Present ''Intro'', data_type := Present ''email'',
                 data_content := Present (JStr ''Hello''), data_created_by := Present ''alice'',
                 data_performance_metrics := Present baseline_metrics \<rparr>"
  let ?doc7 = "no_data \<lparr> data_name := Present ''Intro'', data_type := Present ''email'',
                 data_content := Present (JStr ''Hello''), data_created_by := Present ''alice'',
                 data_performance_metrics :=
                   Present (baseline_metrics \<lparr> total_uses := Some 7 \<rparr>) \<rparr>"
  let ?rename = "no_data \<lparr> data_name := Present ''Renamed'' \<rparr>"
  let ?m = "baseline_metrics \<lparr> total_uses := Some 99 \<rparr>"
  let ?patch = "no_data \<lparr> data_performance_metrics := Present ?m \<rparr>"
  let ?null = "no_data \<lparr> data_performance_metrics := Null \<rparr>"
  have l: "last_used baseline_metrics \<noteq> Absent" by (simp add: baseline_metrics_def)
  obtain u1 s1 where
    h1: "updateScript [''s1'' \<mapsto> ?doc] ''s1'' ?rename (Some ''alice'') 1 2 = (Inr u1, s1)"
    using updateScript_examples(1) by blast
  have d1: "[''s1'' \<mapsto> ?doc] ''s1'' = Some ?doc" by simp
  have c1: "performance_metrics u1 = baseline_metrics
            \<and> map_option data_performance_metrics (s1 ''s1'') = Some (Present baseline_metrics)
            \<and> s1 ''s2'' = None"
    using updateScript_metrics [OF d1 h1, of baseline_metrics baseline_metrics] l
    by (auto simp: no_data_def)
  obtain u2 s2 where
    h2: "updateScript [''s1'' \<mapsto> ?base] ''s1'' ?rename (Some ''alice'') 1 2 = (Inr u2, s2)"
    using updateScript_examples(2) by blast
  have d2: "[''s1'' \<mapsto> ?base] ''s1'' = Some ?base" by simp
  have c2: "performance_metrics u2 = no_metrics
            \<and> map_option data_performance_metrics (s2 ''s1'') = Some (Present no_metrics)"
    using updateScript_metrics [OF d2 h2, of baseline_metrics baseline_metrics]
    by (auto simp: no_data_def read_metrics_def)
  obtain u3 s3 where
    h3: "updateScript [''s1'' \<mapsto> ?doc7] ''s1'' ?null (Some ''alice'') 1 2 = (Inr u3, s3)"
    using updateScript_examples(3) by blast
  have d3: "[''s1'' \<mapsto> ?doc7] ''s1'' = Some ?doc7" by simp
  have c3: "performance_metrics u3 = baseline_metrics
            \<and> map_option data_performance_metrics (s3 ''s1'') = Some (Present baseline_metrics)"
    using updateScript_metrics [OF d3 h3, of baseline_metrics baseline_metrics]
    by (auto simp: no_data_def)
  obtain u4 s4 where
    h4: "updateScript [''s1'' \<mapsto> ?doc] ''s1'' ?patch (Some ''alice'') 1 2 = (Inr u4, s4)"
    using updateScript_examples(4) by blast
  have c4: "performance_metrics u4 = ?m
            \<and> map_option data_performance_metrics (s4 ''s1'') = Some (Present ?m)"
    using updateScript_metrics [OF d1 h4, of baseline_metrics ?m]
    by (auto simp: no_data_def)
  show ?thesis using h1 c1 h2 c2 h3 c3 h4 c4 by blast
qed

theorem updateScript_overwrites_metrics_counterexample:
  "map_option data_performance_metrics
     ([''s1'' \<mapsto> no_data \<lparr> data_name := Present ''Intro'', data_type := Present ''email'',
                   data_content := Present (JStr ''Hello''), data_created_by := Present ''alice'',
                   data_performance_metrics := Present baseline_metrics \<rparr>] ''s1'')
     = Some (Present baseline_metrics)
   \<and> map_option data_performance_metrics
       (snd (updateScript
          [''s1'' \<mapsto> no_data \<lparr> data_name := Present ''Intro'', data_type := Present ''email'',
                       data_content := Present (JStr ''Hello''), data_created_by := Present ''alice'',
                       data_performance_metrics := Present baseline_metrics \<rparr>]
          ''s1''
          (no_data \<lparr> data_performance_metrics := Present (baseline_metrics \<lparr> total_uses := Some 99 \<rparr>) \<rparr>)
          (Some ''alice'') 1 2) ''s1'')
     = Some (Present (baseline_metrics \<lparr> total_uses := Some 99 \<rparr>))
   \<and> baseline_metrics \<lparr> total_uses := Some 99 \<rparr> \<noteq> baseline_metrics"
  by (simp add: updateScript_def getScript_def access_denied_def fromFirestore_def
      validate_def validate_errors_def Script_new_def spread_def merge_def
      collection_update_def of_nullable_def read_metrics_def read_last_used_def
      default_settings_def baseline_metrics_def no_metrics_def toFirestore_def
      over_def no_data_def or_string_def or_null_def or_value_def or_number_def
      or_object_def trim_def is_space_def Let_def extractVariables_def
      extractVariables_content_def QuoteJSONString_def json_escape_def json_escape_char_def
      dq_def bs_def extract_loop.simps variableRegex_at_def)
section \<open>Properties of the placeholder pattern\<close>

lemma variableRegex_at_Some:
  "variableRegex_at s = Some (tok, rest)
     \<longleftrightarrow> s = CHR ''{'' # tok @ CHR ''}'' # rest \<and> tok \<noteq> [] \<and> CHR ''}'' \<notin> set tok"
proof
  assume a: "variableRegex_at s = Some (tok, rest)"
  then obtain cs where s: "s = CHR ''{'' # cs"
    and t: "tok = takeWhile (\<lambda>x. x \<noteq> CHR ''}'') cs"
    and n: "tok \<noteq> []"
    and d: "dropWhile (\<lambda>x. x \<noteq> CHR ''}'') cs \<noteq> []"
    and r: "rest = tl (dropWhile (\<lambda>x. x \<noteq> CHR ''}'') cs)"
    by (auto simp: variableRegex_at_def Let_def split: list.splits if_splits)
  have h: "hd (dropWhile (\<lambda>x. x \<noteq> CHR ''}'') cs) = CHR ''}''"
    using d hd_dropWhile [of "\<lambda>x. x \<noteq> CHR ''}''" cs] by simp
  have "cs = tok @ dropWhile (\<lambda>x. x \<noteq> CHR ''}'') cs"
    using t by simp
  also have "dropWhile (\<lambda>x. x \<noteq> CHR ''}'') cs = CHR ''}'' # rest"
    using d h r by (cases "dropWhile (\<lambda>x. x \<noteq> CHR ''}'') cs") auto
  finally have "cs = tok @ CHR ''}'' # rest" .
  moreover have "CHR ''}'' \<notin> set tok"
    using t by (auto dest: set_takeWhileD)
  ultimately show "s = CHR ''{'' # tok @ CHR ''}'' # rest \<and> tok \<noteq> [] \<and> CHR ''}'' \<notin> set tok"
    using s n by simp
next
  assume a: "s = CHR ''{'' # tok @ CHR ''}'' # rest \<and> tok \<noteq> [] \<and> CHR ''}'' \<notin> set tok"
  then have q: "\<forall>x\<in>set tok. x \<noteq> CHR ''}''" by auto
  have t: "takeWhile (\<lambda>x. x \<noteq> CHR ''}'') (tok @ CHR ''}'' # rest) = tok"
    using q by (simp add: takeWhile_tail)
  have d: "dropWhile (\<lambda>x. x \<noteq> CHR ''}'') (tok @ CHR ''}'' # rest) = CHR ''}'' # rest"
    using q by (simp add: dropWhile_append3)
  show "variableRegex_at s = Some (tok, rest)"
    using a t d by (simp add: variableRegex_at_def Let_def)
qed

lemma variableRegex_exec_Some:
  "variableRegex_exec s = Some (pre, tok, rest)
     \<Longrightarrow> s = pre @ CHR ''{'' # tok @ CHR ''}'' # rest \<and> tok \<noteq> [] \<and> CHR ''}'' \<notin> set tok"
proof (induction s arbitrary: pre)
  case Nil
  then show ?case by simp
next
  case (Cons c cs)
  show ?case
  proof (cases "variableRegex_at (c # cs)")
    case (Some m)
    then have "variableRegex_at (c # cs) = Some (tok, rest)" and "pre = []"
      using Cons.prems by (cases m; simp)+
    then show ?thesis by (simp add: variableRegex_at_Some)
  next
    case None
    then obtain pre' where e: "variableRegex_exec cs = Some (pre', tok, rest)"
      and p: "pre = c # pre'"
      using Cons.prems by (auto split: option.splits)
    show ?thesis using Cons.IH [OF e] p by simp
  qed
qed

lemma variableRegex_at_no_brace: "CHR ''{'' \<notin> set s \<Longrightarrow> variableRegex_at s = None"
  by (cases s) (auto simp: variableRegex_at_def)

lemma variableRegex_exec_no_brace: "CHR ''{'' \<notin> set s \<Longrightarrow> variableRegex_exec s = None"
  by (induction s) (auto simp: variableRegex_at_no_brace)

lemma variableRegex_exec_first:
  assumes "CHR ''{'' \<notin> set pre" and "tok \<noteq> []" and "CHR ''}'' \<notin> set tok"
  shows "variableRegex_exec (pre @ CHR ''{'' # tok @ CHR ''}'' # rest) = Some (pre, tok, rest)"
  using assms(1)
proof (induction pre)
  case Nil
  have "variableRegex_at (CHR ''{'' # tok @ CHR ''}'' # rest) = Some (tok, rest)"
    using assms(2,3) by (simp add: variableRegex_at_Some)
  then show ?case by simp
next
  case (Cons c pre)
  then have "variableRegex_at (c # pre @ CHR ''{'' # tok @ CHR ''}'' # rest) = None"
    by (auto simp: variableRegex_at_def)
  then show ?case using Cons by simp
qed

section \<open>Properties of the substitution\<close>

lemma replaceInString_no_match:
  "variableRegex_exec s = None \<Longrightarrow> replaceInString V s = s"
  by (subst replaceInString.simps) simp

lemma replaceInString_match:
  "variableRegex_exec s = Some (pre, tok, rest)
     \<Longrightarrow> replaceInString V s = pre @ replacer V tok @ replaceInString V rest"
  by (subst replaceInString.simps) simp

lemma no_open_brace_append: "no_open_brace (x @ y) \<Longrightarrow> no_open_brace y"
  by (induction x) auto

lemma variableRegex_at_append_Some:
  "variableRegex_at a = Some (tok, rest) \<Longrightarrow> variableRegex_at (a @ b) = Some (tok, rest @ b)"
  by (simp add: variableRegex_at_Some)

lemma variableRegex_at_append_None:
  assumes "variableRegex_at (c # cs) = None" and "no_open_brace (c # cs)"
  shows "variableRegex_at (c # cs @ b) = None"
proof (cases "c = CHR ''{''")
  case False
  then show ?thesis by (simp add: variableRegex_at_def)
next
  case True
  then have "CHR ''}'' \<in> set cs" using assms(2) by simp
  then have d: "dropWhile (\<lambda>x. x \<noteq> CHR ''}'') cs \<noteq> []"
    by (simp add: dropWhile_eq_Nil_conv)
  then have "takeWhile (\<lambda>x. x \<noteq> CHR ''}'') cs = []"
    using assms(1) True by (simp add: variableRegex_at_def Let_def split: if_splits)
  then obtain cs' where "cs = CHR ''}'' # cs'"
    using d by (cases cs) (auto split: if_splits)
  then show ?thesis using True by (simp add: variableRegex_at_def)
qed

lemma variableRegex_exec_append_Some:
  "variableRegex_exec a = Some (pre, tok, rest)
     \<Longrightarrow> variableRegex_exec (a @ b) = Some (pre, tok, rest @ b)"
proof (induction a arbitrary: pre)
  case Nil
  then show ?case by simp
next
  case (Cons c cs)
  show ?case
  proof (cases "variableRegex_at (c # cs)")
    case (Some m)
    then have m: "variableRegex_at (c # cs) = Some (tok, rest)" and p: "pre = []"
      using Cons.prems by (cases m; simp)+
    show ?thesis using variableRegex_at_append_Some [OF m, of b] p by simp
  next
    case None
    then obtain pre' where e: "variableRegex_exec cs = Some (pre', tok, rest)"
      and p: "pre = c # pre'"
      using Cons.prems by (auto split: option.splits)
    have s: "cs = pre' @ CHR ''{'' # tok @ CHR ''}'' # rest"
      using variableRegex_exec_Some [OF e] by simp
    have "variableRegex_at (c # cs @ b) = None"
    proof (cases "c = CHR ''{''")
      case False
      then show ?thesis by (simp add: variableRegex_at_def)
    next
      case True
      have "CHR ''}'' \<in> set cs" using s by simp
      then have d: "dropWhile (\<lambda>x. x \<noteq> CHR ''}'') cs \<noteq> []"
        by (simp add: dropWhile_eq_Nil_conv)
      then have "takeWhile (\<lambda>x. x \<noteq> CHR ''}'') cs = []"
        using None True by (simp add: variableRegex_at_def Let_def split: if_splits)
      then obtain cs' where "cs = CHR ''}'' # cs'"
        using d by (cases cs) (auto split: if_splits)
      then show ?thesis using True by (simp add: variableRegex_at_def)
    qed
    then show ?thesis using Cons.IH [OF e] p by simp
  qed
qed

lemma variableRegex_exec_append_None:
  "variableRegex_exec a = None \<Longrightarrow> no_open_brace a
     \<Longrightarrow> variableRegex_exec (a @ b)
         = (case variableRegex_exec b of
              None \<Rightarrow> None
            | Some (pre, tok, rest) \<Rightarrow> Some (a @ pre, tok, rest))"
proof (induction a)
  case Nil
  then show ?case by (simp split: option.splits)
next
  case (Cons c cs)
  have n: "variableRegex_at (c # cs) = None"
    using Cons.prems(1) by (auto split: option.splits)
  have e: "variableRegex_exec cs = None"
    using Cons.prems(1) n by (auto split: option.splits)
  have o: "no_open_brace cs" using Cons.prems(2) by simp
  have "variableRegex_at (c # cs @ b) = None"
    using variableRegex_at_append_None [OF n Cons.prems(2)] .
  then show ?case using Cons.IH [OF e o] by (simp split: option.splits)
qed

lemma replaceInString_append:
  "no_open_brace a \<Longrightarrow> replaceInString V (a @ b) = replaceInString V a @ replaceInString V b"
proof (induction V a rule: replaceInString.induct)
  case (1 V a)
  show ?case
  proof (cases "variableRegex_exec a")
    case None
    show ?thesis
    proof (cases "variableRegex_exec b")
      case n: None
      have "variableRegex_exec (a @ b) = None"
        using variableRegex_exec_append_None [OF None "1.prems", of b] n by simp
      then show ?thesis
        using None n by (simp add: replaceInString_no_match)
    next
      case (Some m)
      obtain pre tok rest where m: "m = (pre, tok, rest)" by (cases m)
      have "variableRegex_exec (a @ b) = Some (a @ pre, tok, rest)"
        using variableRegex_exec_append_None [OF None "1.prems", of b] Some m by simp
      then show ?thesis
        using None Some m by (simp add: replaceInString_no_match replaceInString_match)
    qed
  next
    case (Some m)
    obtain pre tok rest where m: "m = (pre, tok, rest)" by (cases m)
    have e: "variableRegex_exec a = Some (pre, tok, rest)" using Some m by simp
    have "a = pre @ (CHR ''{'' # tok @ [CHR ''}'']) @ rest"
      using variableRegex_exec_Some [OF e] by simp
    then have "no_open_brace ((pre @ (CHR ''{'' # tok @ [CHR ''}''])) @ rest)"
      using "1.prems" by simp
    then have o: "no_open_brace rest" by (rule no_open_brace_append)
    have ih: "replaceInString V (rest @ b) = replaceInString V rest @ replaceInString V b"
      using "1.IH" [OF e refl refl o] .
    have "variableRegex_exec (a @ b) = Some (pre, tok, rest @ b)"
      using variableRegex_exec_append_Some [OF e] .
    then show ?thesis
      using e ih by (simp add: replaceInString_match)
  qed
qed

lemma replaceInString_empty_braces: "replaceInString V ''{}'' = ''{}''"
  by (rule replaceInString_no_match) (simp add: variableRegex_at_def)

lemma Set_add_nonempty: "[] \<notin> set vs \<Longrightarrow> tok \<noteq> [] \<Longrightarrow> [] \<notin> set (Set_add vs tok)"
  by (auto simp: Set_add_def)

lemma extract_loop_nonempty: "[] \<notin> set vs \<Longrightarrow> [] \<notin> set (extract_loop s vs)"
proof (induction s vs rule: extract_loop.induct)
  case (1 s vs)
  show ?case
  proof (cases "variableRegex_exec s")
    case None
    then show ?thesis using "1.prems" by (subst extract_loop.simps) simp
  next
    case (Some m)
    obtain pre tok rest where m: "m = (pre, tok, rest)" by (cases m)
    have e: "variableRegex_exec s = Some (pre, tok, rest)" using Some m by simp
    have t: "tok \<noteq> []" using variableRegex_exec_Some [OF e] by simp
    have "[] \<notin> set (extract_loop rest (Set_add vs tok))"
      using "1.IH" [OF e refl refl] Set_add_nonempty [OF "1.prems" t] by simp
    then show ?thesis using e by (subst extract_loop.simps) simp
  qed
qed

text \<open>Substituting with the empty value map changes nothing in a content where no
  object has a member named \<^verbatim>\<open>__proto__\<close>, so the extracted names are the same before
  and after.\<close>

lemma replaceInString_empty_map: "replaceInString Map.empty str = str"
proof (induction "Map.empty :: string \<rightharpoonup> string" str rule: replaceInString.induct)
  case (1 str)
  show ?case
  proof (cases "variableRegex_exec str")
    case None
    then show ?thesis by (simp add: replaceInString_no_match)
  next
    case (Some m)
    obtain pre tok rest where m: "m = (pre, tok, rest)" by (cases m)
    have e: "variableRegex_exec str = Some (pre, tok, rest)" using Some m by simp
    have "replaceInString Map.empty rest = rest" using "1.hyps" [OF e refl refl] .
    then show ?thesis
      using variableRegex_exec_Some [OF e] e
      by (simp add: replaceInString_match replacer_def)
  qed
qed

lemma filter_proto_free:
  "list_all (\<lambda>kv. fst kv \<noteq> ''__proto__'' \<and> proto_free (snd kv)) kvs
     \<Longrightarrow> filter (\<lambda>kv. fst kv \<noteq> ''__proto__'') kvs = kvs"
  by (induction kvs) auto

lemma replaceInObject_empty_map: "proto_free c \<Longrightarrow> replaceInObject Map.empty c = c"
proof (induction c)
  case (JArr xs)
  then show ?case by (simp add: map_idI list_all_iff)
next
  case (JObj kvs)
  have "map (\<lambda>kv. (fst kv, replaceInObject Map.empty (snd kv))) kvs = map (\<lambda>kv. kv) kvs"
  proof (rule map_cong [OF refl])
    fix kv assume m: "kv \<in> set kvs"
    obtain k v where kv: "kv = (k, v)" by (cases kv)
    have "v \<in> Basic_BNFs.snds kv" using kv by simp
    moreover have "proto_free v" using JObj.prems m kv by (auto simp: list_all_iff)
    ultimately have "replaceInObject Map.empty v = v" using JObj.IH m by blast
    then show "(fst kv, replaceInObject Map.empty (snd kv)) = kv" using kv by simp
  qed
  then show ?case using JObj.prems by (simp add: filter_proto_free)
qed (simp_all add: replaceInString_empty_map)

lemma extractVariables_empty_map:
  "proto_free (content s)
     \<Longrightarrow> extractVariables (replaceVariables s Map.empty) = extractVariables s"
  by (simp add: extractVariables_def replaceVariables_def replaceInObject_empty_map)

text \<open>
  Claim C9, as amended. \<open>extractVariables\<close> never returns the empty name. In a string
  leaf, an occurrence of \<^verbatim>\<open>{}\<close> is left unchanged by the substitution, which goes
  on independently before and after it, whenever the text before the occurrence has no
  open brace. (After an open brace the occurrence is part of a placeholder: in
  \<^verbatim>\<open>{a{}\<close> the token is \<^verbatim>\<open>a{\<close>.)
\<close>

theorem empty_braces_not_a_placeholder:
  "[] \<notin> set (extractVariables s)
   \<and> [] \<notin> set (extractVariables_content c)
   \<and> (no_open_brace a
        \<longrightarrow> replaceInString V (a @ ''{}'' @ b)
            = replaceInString V a @ ''{}'' @ replaceInString V b)"
proof -
  have 1: "[] \<notin> set (extractVariables_content x)" for x
    by (simp add: extractVariables_content_def extract_loop_nonempty)
  have 2: "replaceInString V (a @ ''{}'' @ b)
             = replaceInString V a @ ''{}'' @ replaceInString V b" if "no_open_brace a"
  proof -
    have "replaceInString V (a @ ''{}'' @ b)
            = replaceInString V a @ replaceInString V (''{}'' @ b)"
      using that by (rule replaceInString_append)
    also have "replaceInString V (''{}'' @ b) = replaceInString V ''{}'' @ replaceInString V b"
      by (rule replaceInString_append) simp
    finally show ?thesis by (simp add: replaceInString_empty_braces)
  qed
  show ?thesis using 1 2 by (simp add: extractVariables_def)
qed

theorem empty_braces_not_a_placeholder_witness:
  "no_open_brace ''{a} ''
   \<and> replaceInString [''a'' \<mapsto> ''X''] (''{a} '' @ ''{}'' @ ''!'') = ''X {}!''"
proof -
  have h: "no_open_brace ''{a} ''" by simp
  have a: "replaceInString [''a'' \<mapsto> ''X''] ''{a} '' = ''X ''"
    by (simp add: replaceInString.simps variableRegex_at_def replacer_def)
  have b: "replaceInString [''a'' \<mapsto> ''X''] ''!'' = ''!''"
    by (simp add: replaceInString.simps variableRegex_at_def)
  show ?thesis
    using empty_braces_not_a_placeholder [of "Script_new no_data 0" JNull "''{a} ''" "[''a'' \<mapsto> ''X'']" "''!''"]
      h a b by simp
qed

theorem empty_braces_swallowed_counterexample:
  "replaceInString [''a{'' \<mapsto> ''X''] ''{a{}'' = ''X''"
  by (simp add: replaceInString.simps variableRegex_at_def replacer_def)

section \<open>Properties of the substitution on the heap\<close>

text \<open>A call that returns has allocated cells and has written to the cell of its own
  result only: every cell that was there before is as it was.\<close>

lemma length_push [simp]: "length (push h r v) = length h"
  by (simp add: push_def)

lemma length_assign [simp]: "length (assign h r k v) = length h"
  by (simp add: assign_def)

lemma nth_push_other: "a \<noteq> r \<Longrightarrow> push h r v ! a = h ! a"
  by (simp add: push_def)

lemma nth_assign_other: "a \<noteq> r \<Longrightarrow> assign h r k v ! a = h ! a"
  by (simp add: assign_def)

lemma replaceInObject_h_frame:
  "replaceInObject_h n V h v = Some (v', h')
     \<Longrightarrow> length h \<le> length h' \<and> (\<forall>a<length h. h' ! a = h ! a)"
  "map_h n V h r xs = Some h2
     \<Longrightarrow> length h \<le> length h2 \<and> (\<forall>a<length h. a \<noteq> r \<longrightarrow> h2 ! a = h ! a)"
  "entries_h n V h r kvs = Some h3
     \<Longrightarrow> length h \<le> length h3 \<and> (\<forall>a<length h. a \<noteq> r \<longrightarrow> h3 ! a = h ! a)"
proof (induction n V h v and n V h r xs and n V h r kvs arbitrary: v' h' and h2 and h3
    rule: replaceInObject_h_map_h_entries_h.induct)
  case (1 V h obj)
  then show ?case by simp
next
  case (2 n V h a)
  show ?case
  proof (cases "h ! a")
    case (HArr xs)
    then obtain g where g: "map_h n V (h @ [HArr []]) (length h) xs = Some g" and e: "h' = g"
      using "2.prems" by (auto split: if_splits)
    have a: "a < length h" using "2.prems" by (auto split: if_splits)
    have "length (h @ [HArr []]) \<le> length g
          \<and> (\<forall>b<length (h @ [HArr []]). b \<noteq> length h \<longrightarrow> g ! b = (h @ [HArr []]) ! b)"
      using "2.IH"(1) [OF a HArr g] .
    then show ?thesis using e by (auto simp: nth_append)
  next
    case (HObj kvs)
    then obtain g where g: "entries_h n V (h @ [HObj []]) (length h) kvs = Some g" and e: "h' = g"
      using "2.prems" by (auto split: if_splits)
    have a: "a < length h" using "2.prems" by (auto split: if_splits)
    have "length (h @ [HObj []]) \<le> length g
          \<and> (\<forall>b<length (h @ [HObj []]). b \<noteq> length h \<longrightarrow> g ! b = (h @ [HObj []]) ! b)"
      using "2.IH"(2) [OF a HObj g] .
    then show ?thesis using e by (auto simp: nth_append)
  qed
next
  case (9 n V h r x xs)
  obtain x' h1 where c: "replaceInObject_h n V h x = Some (x', h1)"
    and m: "map_h n V (push h1 r x') r xs = Some h2"
    using "9.prems" by (auto split: option.splits)
  have f1: "length h \<le> length h1 \<and> (\<forall>a<length h. h1 ! a = h ! a)"
    using "9.IH"(1) [OF c] .
  have f2: "length (push h1 r x') \<le> length h2
            \<and> (\<forall>a<length (push h1 r x'). a \<noteq> r \<longrightarrow> h2 ! a = push h1 r x' ! a)"
    using "9.IH"(2) [OF c refl m] .
  show ?case using f1 f2 by (auto simp: nth_push_other)
next
  case (11 n V h r kv kvs)
  obtain x' h1 where c: "replaceInObject_h n V h (snd kv) = Some (x', h1)"
    and m: "entries_h n V (assign h1 r (fst kv) x') r kvs = Some h3"
    using "11.prems" by (auto split: option.splits)
  have f1: "length h \<le> length h1 \<and> (\<forall>a<length h. h1 ! a = h ! a)"
    using "11.IH"(1) [OF c] .
  have f2: "length (assign h1 r (fst kv) x') \<le> length h3
            \<and> (\<forall>a<length (assign h1 r (fst kv) x'). a \<noteq> r
                 \<longrightarrow> h3 ! a = assign h1 r (fst kv) x' ! a)"
    using "11.IH"(2) [OF c refl m] .
  show ?case using f1 f2 by (auto simp: nth_assign_other)
qed auto
text \<open>A representation stays one when the bounds are widened, and when the heap changes
  outside the addresses it follows.\<close>

lemma represents_in_mono:
  "represents_in lo hi h v t \<Longrightarrow> lo' \<le> lo \<Longrightarrow> hi \<le> hi' \<Longrightarrow> represents_in lo' hi' h v t"
proof (induction t arbitrary: v)
  case (JArr ts)
  then obtain a xs where v: "v = HRef a" and b: "lo \<le> a" "a < hi" "a < length h"
    and c: "h ! a = HArr xs" and l: "list_all2 (represents_in lo hi h) xs ts"
    by (auto split: hval.splits cell.splits)
  have "list_all2 (represents_in lo' hi' h) xs ts"
    using l JArr.IH JArr.prems(2,3) by (auto elim!: list.rel_mono_strong)
  then show ?case using v b c JArr.prems(2,3) by simp
next
  case (JObj kts)
  then obtain a kvs where v: "v = HRef a" and b: "lo \<le> a" "a < hi" "a < length h"
    and d: "distinct (map fst kts)"
    and c: "h ! a = HObj kvs"
    and l: "list_all2 (\<lambda>kv kt. fst kv = fst kt \<and> represents_in lo hi h (snd kv) (snd kt)) kvs kts"
    by (auto split: hval.splits cell.splits)
  have "list_all2 (\<lambda>kv kt. fst kv = fst kt \<and> represents_in lo' hi' h (snd kv) (snd kt)) kvs kts"
    using l
  proof (rule list.rel_mono_strong)
    fix kv kt assume m: "kt \<in> set kts"
      and r: "fst kv = fst kt \<and> represents_in lo hi h (snd kv) (snd kt)"
    obtain k t where kt: "kt = (k, t)" by (cases kt)
    then have "t \<in> Basic_BNFs.snds kt" by simp
    then have "represents_in lo' hi' h (snd kv) t"
      using JObj.IH [OF m] r kt JObj.prems(2,3) by simp
    then show "fst kv = fst kt \<and> represents_in lo' hi' h (snd kv) (snd kt)"
      using r kt by simp
  qed
  then show ?case using v b c d JObj.prems(2,3) by simp
qed auto

lemma represents_in_stable:
  "represents_in lo hi h v t
     \<Longrightarrow> (\<And>a. lo \<le> a \<Longrightarrow> a < hi \<Longrightarrow> a < length h \<Longrightarrow> a < length g \<and> g ! a = h ! a)
     \<Longrightarrow> represents_in lo hi g v t"
proof (induction t arbitrary: v)
  case (JArr ts)
  then obtain a xs where v: "v = HRef a" and b: "lo \<le> a" "a < hi" "a < length h"
    and c: "h ! a = HArr xs" and l: "list_all2 (represents_in lo hi h) xs ts"
    by (auto split: hval.splits cell.splits)
  have "list_all2 (represents_in lo hi g) xs ts"
    using l JArr.IH JArr.prems(2) by (auto elim!: list.rel_mono_strong)
  then show ?case using v b c JArr.prems(2) [of a] by simp
next
  case (JObj kts)
  then obtain a kvs where v: "v = HRef a" and b: "lo \<le> a" "a < hi" "a < length h"
    and d: "distinct (map fst kts)"
    and c: "h ! a = HObj kvs"
    and l: "list_all2 (\<lambda>kv kt. fst kv = fst kt \<and> represents_in lo hi h (snd kv) (snd kt)) kvs kts"
    by (auto split: hval.splits cell.splits)
  have "list_all2 (\<lambda>kv kt. fst kv = fst kt \<and> represents_in lo hi g (snd kv) (snd kt)) kvs kts"
    using l
  proof (rule list.rel_mono_strong)
    fix kv kt assume m: "kt \<in> set kts"
      and r: "fst kv = fst kt \<and> represents_in lo hi h (snd kv) (snd kt)"
    obtain k t where kt: "kt = (k, t)" by (cases kt)
    then have "t \<in> Basic_BNFs.snds kt" by simp
    then have "represents_in lo hi g (snd kv) t"
      using JObj.IH [OF m] r kt JObj.prems(2) by simp
    then show "fst kv = fst kt \<and> represents_in lo hi g (snd kv) (snd kt)"
      using r kt by simp
  qed
  then show ?case using v b c d JObj.prems(2) [of a] by simp
qed auto

lemma set_member_fresh:
  "k \<notin> fst ` set kvs \<Longrightarrow> set_member kvs k v = kvs @ [(k, v)]"
  by (induction kvs) auto

lemma height_member:
  "t \<in> set ts \<Longrightarrow> height t \<le> foldr max (map height ts) 0"
  by (induction ts) auto

lemma height_entry:
  "kt \<in> set kts \<Longrightarrow> height (snd kt) \<le> foldr max (map (\<lambda>kt. height (snd kt)) kts) 0"
  by (induction kts) auto
lemma nth_push_same: "r < length h \<Longrightarrow> h ! r = HArr ys \<Longrightarrow> push h r v ! r = HArr (ys @ [v])"
  by (simp add: push_def)

lemma nth_assign_same:
  "r < length h \<Longrightarrow> h ! r = HObj acc \<Longrightarrow> k \<noteq> ''__proto__''
     \<Longrightarrow> assign h r k v ! r = HObj (set_member acc k v)"
  by (simp add: assign_def)

lemma assign_proto: "assign h r ''__proto__'' v = h"
  by (simp add: assign_def)

text \<open>The loops, and with them the call, compute on the heap what \<open>replaceInObject\<close>
  computes on the structure, in cells that are new.\<close>

lemma map_h_refines:
  assumes "\<And>t h v. t \<in> set ts \<Longrightarrow> represents_in 0 (length h) h v t
             \<Longrightarrow> \<exists>v' h'. replaceInObject_h m V h v = Some (v', h')
                   \<and> represents_in (length h) (length h') h' v' (replaceInObject V t)"
    and "list_all2 (represents_in 0 r h) xs ts"
    and "r < length h" and "h ! r = HArr ys"
    and "list_all2 (represents_in (Suc r) (length h) h) ys us"
  shows "\<exists>h' ys'. map_h m V h r xs = Some h' \<and> h' ! r = HArr ys'
           \<and> list_all2 (represents_in (Suc r) (length h') h') ys'
               (us @ map (replaceInObject V) ts)"
  using assms
proof (induction xs arbitrary: ts h ys us)
  case Nil
  then show ?case by simp
next
  case (Cons x xs)
  obtain t ts' where ts: "ts = t # ts'" and xt: "represents_in 0 r h x t"
    and rest: "list_all2 (represents_in 0 r h) xs ts'"
    using Cons.prems(2) by (auto simp: list_all2_Cons1)
  have "represents_in 0 (length h) h x t"
    using xt by (rule represents_in_mono) (use Cons.prems(3) in simp_all)
  then obtain x' h1 where c: "replaceInObject_h m V h x = Some (x', h1)"
    and r1: "represents_in (length h) (length h1) h1 x' (replaceInObject V t)"
    using Cons.prems(1) [of t h x] ts by auto
  have f: "length h \<le> length h1" "\<And>a. a < length h \<Longrightarrow> h1 ! a = h ! a"
    using replaceInObject_h_frame(1) [OF c] by auto
  let ?h2 = "push h1 r x'"
  have rl: "r < length h1" using f(1) Cons.prems(3) by simp
  have hr: "h1 ! r = HArr ys" using f(2) Cons.prems(3,4) by simp
  have o: "\<And>a. a < length h \<Longrightarrow> a \<noteq> r \<Longrightarrow> ?h2 ! a = h ! a"
    using f(2) by (simp add: nth_push_other)
  have 1: "\<And>t h v. t \<in> set ts' \<Longrightarrow> represents_in 0 (length h) h v t
             \<Longrightarrow> \<exists>v' h'. replaceInObject_h m V h v = Some (v', h')
                   \<and> represents_in (length h) (length h') h' v' (replaceInObject V t)"
    using Cons.prems(1) ts by simp
  have 2: "list_all2 (represents_in 0 r ?h2) xs ts'"
    using rest
  proof (rule list_all2_mono)
    fix y u assume "represents_in 0 r h y u"
    then show "represents_in 0 r ?h2 y u"
    proof (rule represents_in_stable)
      fix a assume "a < r" "a < length h"
      then show "a < length ?h2 \<and> ?h2 ! a = h ! a" using o f(1) by simp
    qed
  qed
  have 3: "r < length ?h2" using rl by simp
  have 4: "?h2 ! r = HArr (ys @ [x'])" using rl hr by (rule nth_push_same)
  have 5: "list_all2 (represents_in (Suc r) (length ?h2) ?h2) (ys @ [x'])
             (us @ [replaceInObject V t])"
  proof (rule list_all2_appendI)
    show "list_all2 (represents_in (Suc r) (length ?h2) ?h2) ys us"
      using Cons.prems(5)
    proof (rule list_all2_mono)
      fix y u assume "represents_in (Suc r) (length h) h y u"
      then have "represents_in (Suc r) (length h) ?h2 y u"
      proof (rule represents_in_stable)
        fix a assume "Suc r \<le> a" "a < length h"
        then show "a < length ?h2 \<and> ?h2 ! a = h ! a" using o f(1) by simp
      qed
      then show "represents_in (Suc r) (length ?h2) ?h2 y u"
        by (rule represents_in_mono) (use f(1) in simp_all)
    qed
    have "represents_in (length h) (length h1) ?h2 x' (replaceInObject V t)"
      using r1
    proof (rule represents_in_stable)
      fix a assume "length h \<le> a" "a < length h1"
      then show "a < length ?h2 \<and> ?h2 ! a = h1 ! a"
        using Cons.prems(3) by (simp add: nth_push_other)
    qed
    then have "represents_in (Suc r) (length ?h2) ?h2 x' (replaceInObject V t)"
      by (rule represents_in_mono) (use Cons.prems(3) in simp_all)
    then show "list_all2 (represents_in (Suc r) (length ?h2) ?h2) [x'] [replaceInObject V t]"
      by simp
  qed
  obtain h' ys' where "map_h m V ?h2 r xs = Some h'" "h' ! r = HArr ys'"
    "list_all2 (represents_in (Suc r) (length h') h') ys'
       ((us @ [replaceInObject V t]) @ map (replaceInObject V) ts')"
    using Cons.IH [OF 1 2 3 4 5] by blast
  then show ?case using c ts by simp
qed
lemma entries_h_refines:
  assumes "\<And>kt h v. kt \<in> set kts \<Longrightarrow> represents_in 0 (length h) h v (snd kt)
             \<Longrightarrow> \<exists>v' h'. replaceInObject_h m V h v = Some (v', h')
                   \<and> represents_in (length h) (length h') h' v' (replaceInObject V (snd kt))"
    and "list_all2 (\<lambda>kv kt. fst kv = fst kt \<and> represents_in 0 r h (snd kv) (snd kt)) kvs kts"
    and "r < length h" and "h ! r = HObj acc"
    and "list_all2 (\<lambda>kv kt. fst kv = fst kt
            \<and> represents_in (Suc r) (length h) h (snd kv) (snd kt)) acc us"
    and "distinct (map fst us @ map fst kts)"
  shows "\<exists>h' acc'. entries_h m V h r kvs = Some h' \<and> h' ! r = HObj acc'
           \<and> list_all2 (\<lambda>kv kt. fst kv = fst kt
                 \<and> represents_in (Suc r) (length h') h' (snd kv) (snd kt)) acc'
               (us @ map (\<lambda>kt. (fst kt, replaceInObject V (snd kt)))
                       (filter (\<lambda>kt. fst kt \<noteq> ''__proto__'') kts))"
  using assms
proof (induction kvs arbitrary: kts h acc us)
  case Nil
  then show ?case by simp
next
  case (Cons kv kvs)
  obtain kt kts' where ts: "kts = kt # kts'" and k: "fst kv = fst kt"
    and xt: "represents_in 0 r h (snd kv) (snd kt)"
    and rest: "list_all2 (\<lambda>kv kt. fst kv = fst kt \<and> represents_in 0 r h (snd kv) (snd kt))
                 kvs kts'"
    using Cons.prems(2) by (auto simp: list_all2_Cons1)
  have "represents_in 0 (length h) h (snd kv) (snd kt)"
    using xt by (rule represents_in_mono) (use Cons.prems(3) in simp_all)
  then obtain x' h1 where c: "replaceInObject_h m V h (snd kv) = Some (x', h1)"
    and r1: "represents_in (length h) (length h1) h1 x' (replaceInObject V (snd kt))"
    using Cons.prems(1) [of kt h "snd kv"] ts by auto
  have f: "length h \<le> length h1" "\<And>a. a < length h \<Longrightarrow> h1 ! a = h ! a"
    using replaceInObject_h_frame(1) [OF c] by auto
  let ?h2 = "assign h1 r (fst kv) x'"
  let ?us = "us @ map (\<lambda>kt. (fst kt, replaceInObject V (snd kt)))
                    (filter (\<lambda>kt. fst kt \<noteq> ''__proto__'') [kt])"
  let ?acc = "if fst kv = ''__proto__'' then acc else acc @ [(fst kv, x')]"
  have rl: "r < length h1" using f(1) Cons.prems(3) by simp
  have hr: "h1 ! r = HObj acc" using f(2) Cons.prems(3,4) by simp
  have o: "\<And>a. a < length h \<Longrightarrow> a \<noteq> r \<Longrightarrow> ?h2 ! a = h ! a"
    using f(2) by (simp add: nth_assign_other)
  have keys: "map fst acc = map fst us"
    using Cons.prems(5) by (induction acc us rule: list_all2_induct) auto
  have fresh: "fst kv \<notin> fst ` set acc"
  proof -
    have "fst kt \<notin> set (map fst us)" using Cons.prems(6) ts by auto
    then show ?thesis using keys k by (metis set_map)
  qed
  have 1: "\<And>kt h v. kt \<in> set kts' \<Longrightarrow> represents_in 0 (length h) h v (snd kt)
             \<Longrightarrow> \<exists>v' h'. replaceInObject_h m V h v = Some (v', h')
                   \<and> represents_in (length h) (length h') h' v' (replaceInObject V (snd kt))"
    using Cons.prems(1) ts by simp
  have 2: "list_all2 (\<lambda>kv kt. fst kv = fst kt \<and> represents_in 0 r ?h2 (snd kv) (snd kt))
             kvs kts'"
    using rest
  proof (rule list_all2_mono)
    fix y u assume a: "fst y = fst u \<and> represents_in 0 r h (snd y) (snd u)"
    then have "represents_in 0 r h (snd y) (snd u)" by simp
    then have "represents_in 0 r ?h2 (snd y) (snd u)"
    proof (rule represents_in_stable)
      fix a assume "a < r" "a < length h"
      then show "a < length ?h2 \<and> ?h2 ! a = h ! a" using o f(1) by simp
    qed
    then show "fst y = fst u \<and> represents_in 0 r ?h2 (snd y) (snd u)" using a by simp
  qed
  have 3: "r < length ?h2" using rl by simp
  have 4: "?h2 ! r = HObj ?acc"
  proof (cases "fst kv = ''__proto__''")
    case True
    then show ?thesis using hr by (simp add: assign_proto)
  next
    case False
    then show ?thesis
      using nth_assign_same [OF rl hr False] fresh by (simp add: set_member_fresh)
  qed
  have old: "list_all2 (\<lambda>kv kt. fst kv = fst kt
               \<and> represents_in (Suc r) (length ?h2) ?h2 (snd kv) (snd kt)) acc us"
    using Cons.prems(5)
  proof (rule list_all2_mono)
    fix y u assume a: "fst y = fst u \<and> represents_in (Suc r) (length h) h (snd y) (snd u)"
    then have "represents_in (Suc r) (length h) h (snd y) (snd u)" by simp
    then have "represents_in (Suc r) (length h) ?h2 (snd y) (snd u)"
    proof (rule represents_in_stable)
      fix a assume "Suc r \<le> a" "a < length h"
      then show "a < length ?h2 \<and> ?h2 ! a = h ! a" using o f(1) by simp
    qed
    then have "represents_in (Suc r) (length ?h2) ?h2 (snd y) (snd u)"
      by (rule represents_in_mono) (use f(1) in simp_all)
    then show "fst y = fst u \<and> represents_in (Suc r) (length ?h2) ?h2 (snd y) (snd u)"
      using a by simp
  qed
  have "represents_in (length h) (length h1) ?h2 x' (replaceInObject V (snd kt))"
    using r1
  proof (rule represents_in_stable)
    fix a assume "length h \<le> a" "a < length h1"
    then show "a < length ?h2 \<and> ?h2 ! a = h1 ! a"
      using Cons.prems(3) by (simp add: nth_assign_other)
  qed
  then have new: "represents_in (Suc r) (length ?h2) ?h2 x' (replaceInObject V (snd kt))"
    by (rule represents_in_mono) (use Cons.prems(3) in simp_all)
  have 5: "list_all2 (\<lambda>kv kt. fst kv = fst kt
             \<and> represents_in (Suc r) (length ?h2) ?h2 (snd kv) (snd kt)) ?acc ?us"
  proof (cases "fst kv = ''__proto__''")
    case True
    then show ?thesis using old k by simp
  next
    case False
    have "list_all2 (\<lambda>kv kt. fst kv = fst kt
             \<and> represents_in (Suc r) (length ?h2) ?h2 (snd kv) (snd kt))
            (acc @ [(fst kv, x')]) (us @ [(fst kt, replaceInObject V (snd kt))])"
      using old new k by (intro list_all2_appendI) simp_all
    then show ?thesis using False k by simp
  qed
  have 6: "distinct (map fst ?us @ map fst kts')"
    using Cons.prems(6) ts by auto
  obtain h' acc' where "entries_h m V ?h2 r kvs = Some h'" "h' ! r = HObj acc'"
    "list_all2 (\<lambda>kv kt. fst kv = fst kt
        \<and> represents_in (Suc r) (length h') h' (snd kv) (snd kt)) acc'
       (?us @ map (\<lambda>kt. (fst kt, replaceInObject V (snd kt)))
                (filter (\<lambda>kt. fst kt \<noteq> ''__proto__'') kts'))"
    using Cons.IH [OF 1 2 3 4 5 6] by blast
  then show ?case using c ts by (cases "fst kt = ''__proto__''") simp_all
qed
lemma replaceInObject_h_refines:
  "represents_in 0 (length h) h v t \<Longrightarrow> height t < n
     \<Longrightarrow> \<exists>v' h'. replaceInObject_h n V h v = Some (v', h')
           \<and> represents_in (length h) (length h') h' v' (replaceInObject V t)"
proof (induction t arbitrary: n h v)
  case JNull
  then obtain m where "n = Suc m" by (cases n) auto
  then show ?case using JNull by simp
next
  case (JBool b)
  then obtain m where "n = Suc m" by (cases n) auto
  then show ?case using JBool by simp
next
  case (JNum i)
  then obtain m where "n = Suc m" by (cases n) auto
  then show ?case using JNum by simp
next
  case (JStr s)
  then obtain m where "n = Suc m" by (cases n) auto
  then show ?case using JStr by simp
next
  case (JArr ts)
  obtain m where n: "n = Suc m" and hm: "foldr max (map height ts) 0 < m"
    using JArr.prems(2) by (cases n) auto
  obtain a xs where v: "v = HRef a" and a: "a < length h"
    and c: "h ! a = HArr xs" and l: "list_all2 (represents_in 0 (length h) h) xs ts"
    using JArr.prems(1) by (auto split: hval.splits cell.splits)
  let ?r = "length h"
  let ?h1 = "h @ [HArr []]"
  have 1: "\<And>t h v. t \<in> set ts \<Longrightarrow> represents_in 0 (length h) h v t
             \<Longrightarrow> \<exists>v' h'. replaceInObject_h m V h v = Some (v', h')
                   \<and> represents_in (length h) (length h') h' v' (replaceInObject V t)"
  proof -
    fix t g w assume m: "t \<in> set ts" and r: "represents_in 0 (length g) g w t"
    have "height t < m" using height_member [OF m] hm by simp
    then show "\<exists>v' h'. replaceInObject_h m V g w = Some (v', h')
                 \<and> represents_in (length g) (length h') h' v' (replaceInObject V t)"
      using JArr.IH [OF m r] by blast
  qed
  have 2: "list_all2 (represents_in 0 ?r ?h1) xs ts"
    using l
  proof (rule list_all2_mono)
    fix y u assume "represents_in 0 (length h) h y u"
    then show "represents_in 0 (length h) ?h1 y u"
    proof (rule represents_in_stable)
      fix b assume "b < length h"
      then show "b < length ?h1 \<and> ?h1 ! b = h ! b" by (simp add: nth_append)
    qed
  qed
  have 3: "?r < length ?h1" by simp
  have 4: "?h1 ! ?r = HArr []" by simp
  have 5: "list_all2 (represents_in (Suc ?r) (length ?h1) ?h1) [] []" by simp
  obtain h' ys' where mp: "map_h m V ?h1 ?r xs = Some h'" and hr: "h' ! ?r = HArr ys'"
    and ll: "list_all2 (represents_in (Suc ?r) (length h') h') ys'
               ([] @ map (replaceInObject V) ts)"
    using map_h_refines [OF 1 2 3 4 5] by blast
  have len: "?r < length h'" using replaceInObject_h_frame(2) [OF mp] by simp
  have "list_all2 (represents_in ?r (length h') h') ys' (map (replaceInObject V) ts)"
    using ll [simplified]
  proof (rule list_all2_mono)
    fix y u assume "represents_in (Suc ?r) (length h') h' y u"
    then show "represents_in ?r (length h') h' y u"
      by (rule represents_in_mono) simp_all
  qed
  then have "represents_in ?r (length h') h' (HRef ?r) (replaceInObject V (JArr ts))"
    using len hr by simp
  moreover have "replaceInObject_h n V h v = Some (HRef ?r, h')"
    using n v a c mp by simp
  ultimately show ?case by blast
next
  case (JObj kts)
  obtain m where n: "n = Suc m"
    and hm: "foldr max (map (\<lambda>kt. height (snd kt)) kts) 0 < m"
    using JObj.prems(2) by (cases n) auto
  obtain a kvs where v: "v = HRef a" and a: "a < length h"
    and d: "distinct (map fst kts)"
    and c: "h ! a = HObj kvs"
    and l: "list_all2 (\<lambda>kv kt. fst kv = fst kt
              \<and> represents_in 0 (length h) h (snd kv) (snd kt)) kvs kts"
    using JObj.prems(1) by (auto split: hval.splits cell.splits)
  let ?r = "length h"
  let ?h1 = "h @ [HObj []]"
  let ?res = "map (\<lambda>kt. (fst kt, replaceInObject V (snd kt)))
                (filter (\<lambda>kt. fst kt \<noteq> ''__proto__'') kts)"
  have 1: "\<And>kt h v. kt \<in> set kts \<Longrightarrow> represents_in 0 (length h) h v (snd kt)
             \<Longrightarrow> \<exists>v' h'. replaceInObject_h m V h v = Some (v', h')
                   \<and> represents_in (length h) (length h') h' v' (replaceInObject V (snd kt))"
  proof -
    fix kt g w assume m: "kt \<in> set kts" and r: "represents_in 0 (length g) g w (snd kt)"
    have hh: "height (snd kt) < m" using height_entry [OF m] hm by simp
    have "snd kt \<in> Basic_BNFs.snds kt" by (cases kt) simp
    then show "\<exists>v' h'. replaceInObject_h m V g w = Some (v', h')
                 \<and> represents_in (length g) (length h') h' v' (replaceInObject V (snd kt))"
      using JObj.IH [OF m _ r hh] by blast
  qed
  have 2: "list_all2 (\<lambda>kv kt. fst kv = fst kt \<and> represents_in 0 ?r ?h1 (snd kv) (snd kt))
             kvs kts"
    using l
  proof (rule list_all2_mono)
    fix y u assume q: "fst y = fst u \<and> represents_in 0 (length h) h (snd y) (snd u)"
    then have "represents_in 0 (length h) h (snd y) (snd u)" by simp
    then have "represents_in 0 (length h) ?h1 (snd y) (snd u)"
    proof (rule represents_in_stable)
      fix b assume "b < length h"
      then show "b < length ?h1 \<and> ?h1 ! b = h ! b" by (simp add: nth_append)
    qed
    then show "fst y = fst u \<and> represents_in 0 (length h) ?h1 (snd y) (snd u)"
      using q by simp
  qed
  have 3: "?r < length ?h1" by simp
  have 4: "?h1 ! ?r = HObj []" by simp
  have 5: "list_all2 (\<lambda>kv kt. fst kv = fst kt
             \<and> represents_in (Suc ?r) (length ?h1) ?h1 (snd kv) (snd kt)) [] []" by simp
  have 6: "distinct (map fst [] @ map fst kts)" using d by simp
  obtain h' acc' where mp: "entries_h m V ?h1 ?r kvs = Some h'" and hr: "h' ! ?r = HObj acc'"
    and ll: "list_all2 (\<lambda>kv kt. fst kv = fst kt
               \<and> represents_in (Suc ?r) (length h') h' (snd kv) (snd kt)) acc' ([] @ ?res)"
    using entries_h_refines [OF 1 2 3 4 5 6] by blast
  have len: "?r < length h'" using replaceInObject_h_frame(3) [OF mp] by simp
  have l2: "list_all2 (\<lambda>kv kt. fst kv = fst kt
               \<and> represents_in ?r (length h') h' (snd kv) (snd kt)) acc' ?res"
    using ll [simplified]
  proof (rule list_all2_mono)
    fix y u assume q: "fst y = fst u \<and> represents_in (Suc ?r) (length h') h' (snd y) (snd u)"
    then have "represents_in (Suc ?r) (length h') h' (snd y) (snd u)" by simp
    then have "represents_in ?r (length h') h' (snd y) (snd u)"
      by (rule represents_in_mono) simp_all
    then show "fst y = fst u \<and> represents_in ?r (length h') h' (snd y) (snd u)"
      using q by simp
  qed
  have "map fst ?res = filter (\<lambda>k. k \<noteq> ''__proto__'') (map fst kts)"
    by (induction kts) auto
  then have d2: "distinct (map fst ?res)" using d by simp
  have "represents_in ?r (length h') h' (HRef ?r) (JObj ?res)"
    using len hr l2 d2 by simp
  then have "represents_in ?r (length h') h' (HRef ?r) (replaceInObject V (JObj kts))"
    by simp
  moreover have "replaceInObject_h n V h v = Some (HRef ?r, h')"
    using n v a c mp by simp
  ultimately show ?case by blast
qed

lemma replaceVariables_h_frame:
  assumes "replaceVariables_h n V h this = Some (v', h')"
  shows "v' = HRef (length h) \<and> length h < length h' \<and> (\<forall>a<length h. h' ! a = h ! a)"
proof -
  let ?h1 = "h @ [HObj (members (h ! this))]"
  obtain c h2 where
    c: "replaceInObject_h n V ?h1 (get_member (members (?h1 ! this)) ''content'') = Some (c, h2)"
    and v: "v' = HRef (length h)"
    and h: "h' = h2[length h := HObj (set_member (members (h2 ! length h)) ''content'' c)]"
    using assms by (auto simp: replaceVariables_h_def Let_def split: if_splits option.splits)
  have f: "length ?h1 \<le> length h2" "\<And>a. a < length ?h1 \<Longrightarrow> h2 ! a = ?h1 ! a"
    using replaceInObject_h_frame(1) [OF c] by auto
  have "\<forall>a<length h. h' ! a = h ! a"
  proof (intro allI impI)
    fix a assume a: "a < length h"
    then have "h' ! a = h2 ! a" using h by simp
    also have "\<dots> = ?h1 ! a" using f(2) [of a] a by simp
    also have "\<dots> = h ! a" using a by (simp add: nth_append)
    finally show "h' ! a = h ! a" .
  qed
  then show ?thesis using v h f(1) by simp
qed

lemma replaceVariables_h_refines:
  assumes "this < length h" and "h ! this = HObj kvs" and "map_of kvs ''content'' = Some c"
    and "represents_in 0 (length h) h c t" and "height t < n"
  shows "\<exists>c' h'. replaceVariables_h n V h this = Some (HRef (length h), h')
           \<and> h' ! length h = HObj (set_member kvs ''content'' c')
           \<and> represents_in (Suc (length h)) (length h') h' c' (replaceInObject V t)"
proof -
  let ?r = "length h"
  let ?h1 = "h @ [HObj kvs]"
  have g: "get_member kvs ''content'' = c" using assms(3) by (simp add: get_member_def)
  have "represents_in 0 (length h) ?h1 c t"
    using assms(4)
  proof (rule represents_in_stable)
    fix b assume "b < length h"
    then show "b < length ?h1 \<and> ?h1 ! b = h ! b" by (simp add: nth_append)
  qed
  then have "represents_in 0 (length ?h1) ?h1 c t"
    by (rule represents_in_mono) simp_all
  then obtain c' h2 where c: "replaceInObject_h n V ?h1 c = Some (c', h2)"
    and r: "represents_in (length ?h1) (length h2) h2 c' (replaceInObject V t)"
    using replaceInObject_h_refines [OF _ assms(5)] by blast
  have f: "length ?h1 \<le> length h2" "\<And>a. a < length ?h1 \<Longrightarrow> h2 ! a = ?h1 ! a"
    using replaceInObject_h_frame(1) [OF c] by auto
  have hr: "h2 ! ?r = HObj kvs" using f(2) [of ?r] by simp
  let ?h' = "h2[?r := HObj (set_member kvs ''content'' c')]"
  have 1: "replaceVariables_h n V h this = Some (HRef ?r, ?h')"
    using assms(1,2) g c hr by (simp add: replaceVariables_h_def Let_def nth_append)
  have 2: "?h' ! ?r = HObj (set_member kvs ''content'' c')" using f(1) by simp
  have "represents_in (length ?h1) (length h2) ?h' c' (replaceInObject V t)"
    using r
  proof (rule represents_in_stable)
    fix b assume "length ?h1 \<le> b" "b < length h2"
    then show "b < length ?h' \<and> ?h' ! b = h2 ! b" by simp
  qed
  then have 3: "represents_in (Suc ?r) (length ?h') ?h' c' (replaceInObject V t)"
    by (rule represents_in_mono) simp_all
  show ?thesis using 1 2 3 by blast
qed

lemma represents_in_frame:
  assumes "represents_in 0 (length h) h v t"
    and "length h \<le> length h'" and "\<forall>a<length h. h' ! a = h ! a"
  shows "represents_in 0 (length h) h' v t"
  using assms(1)
proof (rule represents_in_stable)
  fix b assume "b < length h"
  then show "b < length h' \<and> h' ! b = h ! b" using assms(2,3) by simp
qed

text \<open>Every member that a plain object inherits reads as a text that is not empty.\<close>

lemma Object_prototype_not_empty: "Object_prototype k = Some f \<Longrightarrow> f \<noteq> []"
  by (auto simp: Object_prototype_def native_function_def split: if_splits)

lemma replacer_property_read:
  "replacer (property_read own) tok
     = (case own tok of
          Some v \<Rightarrow> if v \<noteq> [] then v else ''{'' @ tok @ ''}''
        | None \<Rightarrow>
            (case Object_prototype tok of
               Some f \<Rightarrow> f
             | None \<Rightarrow> ''{'' @ tok @ ''}''))"
  by (auto simp: replacer_def property_read_def map_add_def
      dest: Object_prototype_not_empty split: option.splits)

lemma no_open_brace_no_brace: "CHR ''{'' \<notin> set a \<Longrightarrow> no_open_brace a"
  by (induction a) auto

lemma variableRegex_exec_no_closing:
  "CHR ''}'' \<notin> set s \<Longrightarrow> variableRegex_exec s = None"
proof (cases "variableRegex_exec s")
  case None
  then show ?thesis .
next
  case (Some m)
  assume n: "CHR ''}'' \<notin> set s"
  obtain pre tok rest where "variableRegex_exec s = Some (pre, tok, rest)"
    using Some by (cases m) auto
  then have "s = pre @ CHR ''{'' # tok @ CHR ''}'' # rest"
    using variableRegex_exec_Some by blast
  then show ?thesis using n by simp
qed

lemma replaceInString_unclosed:
  assumes "CHR ''{'' \<notin> set pre" and "CHR ''}'' \<notin> set rest"
  shows "replaceInString V (pre @ ''{'' @ rest) = pre @ ''{'' @ rest"
proof -
  have "replaceInString V (pre @ ''{'' @ rest)
          = replaceInString V pre @ replaceInString V (''{'' @ rest)"
    using assms(1) by (intro replaceInString_append no_open_brace_no_brace)
  moreover have "replaceInString V pre = pre"
    using assms(1) by (simp add: replaceInString_no_match variableRegex_exec_no_brace)
  moreover have "replaceInString V (''{'' @ rest) = ''{'' @ rest"
    using assms(2) by (intro replaceInString_no_match variableRegex_exec_no_closing) simp
  ultimately show ?thesis by simp
qed

lemma replaceInString_skips_empty_braces:
  assumes "CHR ''{'' \<notin> set pre"
  shows "replaceInString V (pre @ ''{}'' @ rest) = pre @ ''{}'' @ replaceInString V rest"
proof -
  have "replaceInString V (pre @ ''{}'' @ rest)
          = replaceInString V pre @ replaceInString V (''{}'' @ rest)"
    using assms by (intro replaceInString_append no_open_brace_no_brace)
  moreover have "replaceInString V pre = pre"
    using assms by (simp add: replaceInString_no_match variableRegex_exec_no_brace)
  moreover have "replaceInString V (''{}'' @ rest)
                   = replaceInString V ''{}'' @ replaceInString V rest"
    by (rule replaceInString_append) simp
  ultimately show ?thesis by (simp add: replaceInString_empty_braces)
qed

lemma replaceInString_first:
  assumes "CHR ''{'' \<notin> set pre" and "tok \<noteq> []" and "CHR ''}'' \<notin> set tok"
  shows "replaceInString V (pre @ ''{'' @ tok @ ''}'' @ rest)
           = pre @ replacer V tok @ replaceInString V rest"
proof -
  have "variableRegex_exec (pre @ CHR ''{'' # tok @ CHR ''}'' # rest) = Some (pre, tok, rest)"
    using assms by (rule variableRegex_exec_first)
  then show ?thesis by (simp add: replaceInString_match)
qed

text \<open>
  The four cases of a string (no opening brace; a first opening brace with no closing
  brace after it, with a closing brace at once, or with a token before the closing
  brace) cover every string, so the four equations that say what the substitution
  does in each of them determine it: a function that satisfies them is
  \<open>replaceInString\<close>.
\<close>

lemma replaceInString_determined:
  assumes A: "\<And>str. CHR ''{'' \<notin> set str \<Longrightarrow> f str = str"
    and B: "\<And>pre rest. CHR ''{'' \<notin> set pre \<Longrightarrow> CHR ''}'' \<notin> set rest
              \<Longrightarrow> f (pre @ ''{'' @ rest) = pre @ ''{'' @ rest"
    and C: "\<And>pre rest. CHR ''{'' \<notin> set pre
              \<Longrightarrow> f (pre @ ''{}'' @ rest) = pre @ ''{}'' @ f rest"
    and D: "\<And>pre tok rest. CHR ''{'' \<notin> set pre \<Longrightarrow> tok \<noteq> [] \<Longrightarrow> CHR ''}'' \<notin> set tok
              \<Longrightarrow> f (pre @ ''{'' @ tok @ ''}'' @ rest) = pre @ replacer V tok @ f rest"
  shows "f str = replaceInString V str"
proof (induction str rule: length_induct)
  case (1 str)
  show ?case
  proof (cases "CHR ''{'' \<in> set str")
    case False
    then show ?thesis
      using A by (simp add: replaceInString_no_match variableRegex_exec_no_brace)
  next
    case True
    then obtain pre r where s: "str = pre @ CHR ''{'' # r" and p: "CHR ''{'' \<notin> set pre"
      by (auto dest: split_list_first)
    show ?thesis
    proof (cases "CHR ''}'' \<in> set r")
      case False
      then show ?thesis
        using B [OF p, of r] replaceInString_unclosed [OF p, of r V] s by simp
    next
      case True
      then obtain tok rest where r: "r = tok @ CHR ''}'' # rest" and t: "CHR ''}'' \<notin> set tok"
        by (auto dest: split_list_first)
      have "length rest < length str" using s r by simp
      then have ih: "f rest = replaceInString V rest" using "1.IH" by blast
      show ?thesis
      proof (cases "tok = []")
        case True
        then show ?thesis
          using C [OF p, of rest] replaceInString_skips_empty_braces [OF p, of V rest] s r ih
          by simp
      next
        case False
        then show ?thesis
          using D [OF p False t, of rest] replaceInString_first [OF p False t, of V rest] s r ih
          by simp
      qed
    qed
  qed
qed

text \<open>
  Claim C3, as amended. In a string leaf the text is read from left to right. Text
  without an opening brace is kept. At the first opening brace: when no closing brace
  follows it, the rest of the string is kept as it is; when a closing brace follows it
  at once, the two braces are kept and the reading goes on after them; otherwise the
  token is the text up to the next closing brace (it may contain opening braces), and
  the placeholder is replaced by the value of the token when the token is an own key
  of the value map with a value that is not the empty string, by the text of the
  inherited member when the token is no own key but names a member that every plain
  object inherits (\<^verbatim>\<open>constructor\<close>, \<^verbatim>\<open>toString\<close>, \<^verbatim>\<open>__proto__\<close> and the like), and
  is left as it stands in the other cases (an own key with the empty string as its
  value, or no key at all); the reading goes on after the closing brace.
  \<open>replaceInObject\<close> does this in every string leaf, maps over arrays and over the
  members of objects other than \<^verbatim>\<open>__proto__\<close>, and returns other leaves as they are;
  \<open>replaceVariables\<close> returns a record that differs from the script in its content
  only. On the heap, a call of \<^verbatim>\<open>replaceInObject\<close> or of \<^verbatim>\<open>replaceVariables\<close> that
  returns has changed no cell that existed before it. When the argument represents a
  content structure and the stack allows more calls than the structure is high, the
  call returns; what \<^verbatim>\<open>replaceInObject\<close> returns represents the substituted
  structure in cells that are all new, the argument represents afterwards what it
  represented before, and \<^verbatim>\<open>replaceVariables\<close> returns a new object with the members
  of the script, its \<open>content\<close> being the new structure.
\<close>

theorem replaceVariables_substitutes:
  "(CHR ''{'' \<notin> set str \<longrightarrow> replaceInString (property_read own) str = str)
   \<and> (CHR ''{'' \<notin> set pre \<and> CHR ''}'' \<notin> set rest
        \<longrightarrow> replaceInString (property_read own) (pre @ ''{'' @ rest) = pre @ ''{'' @ rest)
   \<and> (CHR ''{'' \<notin> set pre
        \<longrightarrow> replaceInString (property_read own) (pre @ ''{}'' @ rest)
            = pre @ ''{}'' @ replaceInString (property_read own) rest)
   \<and> (CHR ''{'' \<notin> set pre \<and> tok \<noteq> [] \<and> CHR ''}'' \<notin> set tok
        \<longrightarrow> replaceInString (property_read own) (pre @ ''{'' @ tok @ ''}'' @ rest)
            = pre
              @ (case own tok of
                   Some val \<Rightarrow> if val \<noteq> [] then val else ''{'' @ tok @ ''}''
                 | None \<Rightarrow>
                     (case Object_prototype tok of
                        Some f \<Rightarrow> f
                      | None \<Rightarrow> ''{'' @ tok @ ''}''))
              @ replaceInString (property_read own) rest)
   \<and> replaceInObject V (JStr str) = JStr (replaceInString V str)
   \<and> replaceInObject V (JArr ts) = JArr (map (replaceInObject V) ts)
   \<and> replaceInObject V (JObj kts)
       = JObj (map (\<lambda>kt. (fst kt, replaceInObject V (snd kt)))
                 (filter (\<lambda>kt. fst kt \<noteq> ''__proto__'') kts))
   \<and> replaceInObject V JNull = JNull
   \<and> replaceInObject V (JBool b) = JBool b
   \<and> replaceInObject V (JNum i) = JNum i
   \<and> content (replaceVariables s V) = replaceInObject V (content s)
   \<and> (replaceVariables s V) \<lparr> content := content s \<rparr> = s
   \<and> (replaceInObject_h n V h v = Some (v1, h1)
        \<longrightarrow> length h \<le> length h1 \<and> (\<forall>a<length h. h1 ! a = h ! a))
   \<and> (represents_in 0 (length h) h v t \<and> height t < n
        \<longrightarrow> (\<exists>v2 h2. replaceInObject_h n V h v = Some (v2, h2)
               \<and> represents_in (length h) (length h2) h2 v2 (replaceInObject V t)
               \<and> represents_in 0 (length h) h2 v t))
   \<and> (replaceVariables_h n V h this = Some (v3, h3)
        \<longrightarrow> v3 = HRef (length h) \<and> length h < length h3 \<and> (\<forall>a<length h. h3 ! a = h ! a))
   \<and> (this < length h \<and> h ! this = HObj kvs \<and> map_of kvs ''content'' = Some c
        \<and> represents_in 0 (length h) h c t \<and> height t < n
        \<longrightarrow> (\<exists>c' h4. replaceVariables_h n V h this = Some (HRef (length h), h4)
               \<and> h4 ! length h = HObj (set_member kvs ''content'' c')
               \<and> represents_in (Suc (length h)) (length h4) h4 c' (replaceInObject V t)
               \<and> represents_in 0 (length h) h4 c t))"
proof -
  have 1: "CHR ''{'' \<notin> set str \<longrightarrow> replaceInString (property_read own) str = str"
    by (simp add: replaceInString_no_match variableRegex_exec_no_brace)
  have 2: "CHR ''{'' \<notin> set pre \<and> CHR ''}'' \<notin> set rest
        \<longrightarrow> replaceInString (property_read own) (pre @ ''{'' @ rest) = pre @ ''{'' @ rest"
    using replaceInString_unclosed by blast
  have 3: "CHR ''{'' \<notin> set pre
        \<longrightarrow> replaceInString (property_read own) (pre @ ''{}'' @ rest)
            = pre @ ''{}'' @ replaceInString (property_read own) rest"
    using replaceInString_skips_empty_braces by blast
  have 4: "CHR ''{'' \<notin> set pre \<and> tok \<noteq> [] \<and> CHR ''}'' \<notin> set tok
        \<longrightarrow> replaceInString (property_read own) (pre @ ''{'' @ tok @ ''}'' @ rest)
            = pre
              @ (case own tok of
                   Some val \<Rightarrow> if val \<noteq> [] then val else ''{'' @ tok @ ''}''
                 | None \<Rightarrow>
                     (case Object_prototype tok of
                        Some f \<Rightarrow> f
                      | None \<Rightarrow> ''{'' @ tok @ ''}''))
              @ replaceInString (property_read own) rest"
    using replaceInString_first [of pre tok "property_read own" rest]
    unfolding replacer_property_read by (intro impI) (elim conjE)
  have 5: "replaceInObject V (JStr str) = JStr (replaceInString V str)
   \<and> replaceInObject V (JArr ts) = JArr (map (replaceInObject V) ts)
   \<and> replaceInObject V (JObj kts)
       = JObj (map (\<lambda>kt. (fst kt, replaceInObject V (snd kt)))
                 (filter (\<lambda>kt. fst kt \<noteq> ''__proto__'') kts))
   \<and> replaceInObject V JNull = JNull
   \<and> replaceInObject V (JBool b) = JBool b
   \<and> replaceInObject V (JNum i) = JNum i
   \<and> content (replaceVariables s V) = replaceInObject V (content s)
   \<and> (replaceVariables s V) \<lparr> content := content s \<rparr> = s"
    by (simp add: replaceVariables_def)
  have 6: "replaceInObject_h n V h v = Some (v1, h1)
        \<longrightarrow> length h \<le> length h1 \<and> (\<forall>a<length h. h1 ! a = h ! a)"
    using replaceInObject_h_frame(1) by blast
  have 7: "represents_in 0 (length h) h v t \<and> height t < n
        \<longrightarrow> (\<exists>v2 h2. replaceInObject_h n V h v = Some (v2, h2)
               \<and> represents_in (length h) (length h2) h2 v2 (replaceInObject V t)
               \<and> represents_in 0 (length h) h2 v t)"
  proof
    assume a: "represents_in 0 (length h) h v t \<and> height t < n"
    then obtain v2 h2 where c: "replaceInObject_h n V h v = Some (v2, h2)"
      and r: "represents_in (length h) (length h2) h2 v2 (replaceInObject V t)"
      using replaceInObject_h_refines [of h v t n V] by blast
    have "represents_in 0 (length h) h2 v t"
      by (rule represents_in_frame) (use a replaceInObject_h_frame(1) [OF c] in auto)
    then show "\<exists>v2 h2. replaceInObject_h n V h v = Some (v2, h2)
               \<and> represents_in (length h) (length h2) h2 v2 (replaceInObject V t)
               \<and> represents_in 0 (length h) h2 v t"
      using c r by blast
  qed
  have 8: "replaceVariables_h n V h this = Some (v3, h3)
        \<longrightarrow> v3 = HRef (length h) \<and> length h < length h3 \<and> (\<forall>a<length h. h3 ! a = h ! a)"
    using replaceVariables_h_frame by blast
  have 9: "this < length h \<and> h ! this = HObj kvs \<and> map_of kvs ''content'' = Some c
        \<and> represents_in 0 (length h) h c t \<and> height t < n
        \<longrightarrow> (\<exists>c' h4. replaceVariables_h n V h this = Some (HRef (length h), h4)
               \<and> h4 ! length h = HObj (set_member kvs ''content'' c')
               \<and> represents_in (Suc (length h)) (length h4) h4 c' (replaceInObject V t)
               \<and> represents_in 0 (length h) h4 c t)"
  proof
    assume a: "this < length h \<and> h ! this = HObj kvs \<and> map_of kvs ''content'' = Some c
        \<and> represents_in 0 (length h) h c t \<and> height t < n"
    then obtain c' h4 where c: "replaceVariables_h n V h this = Some (HRef (length h), h4)"
      and m: "h4 ! length h = HObj (set_member kvs ''content'' c')"
      and r: "represents_in (Suc (length h)) (length h4) h4 c' (replaceInObject V t)"
      using replaceVariables_h_refines [of this h kvs c t n V] by blast
    have "represents_in 0 (length h) h4 c t"
      by (rule represents_in_frame) (use a replaceVariables_h_frame [OF c] in auto)
    then show "\<exists>c' h4. replaceVariables_h n V h this = Some (HRef (length h), h4)
               \<and> h4 ! length h = HObj (set_member kvs ''content'' c')
               \<and> represents_in (Suc (length h)) (length h4) h4 c' (replaceInObject V t)
               \<and> represents_in 0 (length h) h4 c t"
      using c m r by blast
  qed
  show ?thesis
    apply (intro conjI)
                   apply (rule 1)
                  apply (rule 2)
                 apply (rule 3)
                apply (rule 4)
               apply (simp_all only: 5)
       apply (rule 6)
      apply (rule 7)
     apply (rule 8)
    apply (rule 9)
    done
qed

lemma replaceInObject_h_example:
  "replaceInObject_h 3 [''name'' \<mapsto> ''Ann'']
     [HObj [(''name'', HStr ''Intro''), (''content'', HRef 1)],
      HObj [(''opening'', HStr ''Hi {name}!''), (''main_points'', HRef 2)],
      HArr [HStr ''{name}'', HNum 3]]
     (HRef 1)
   = Some (HRef 3,
       [HObj [(''name'', HStr ''Intro''), (''content'', HRef 1)],
        HObj [(''opening'', HStr ''Hi {name}!''), (''main_points'', HRef 2)],
        HArr [HStr ''{name}'', HNum 3],
        HObj [(''opening'', HStr ''Hi Ann!''), (''main_points'', HRef 4)],
        HArr [HStr ''Ann'', HNum 3]])"
  by (simp add: eval_nat_numeral push_def assign_def replaceInString.simps
      variableRegex_at_def replacer_def)

lemma replaceVariables_h_example:
  "replaceVariables_h 3 [''name'' \<mapsto> ''Ann'']
     [HObj [(''name'', HStr ''Intro''), (''content'', HRef 1)],
      HObj [(''opening'', HStr ''Hi {name}!''), (''main_points'', HRef 2)],
      HArr [HStr ''{name}'', HNum 3]]
     0
   = Some (HRef 3,
       [HObj [(''name'', HStr ''Intro''), (''content'', HRef 1)],
        HObj [(''opening'', HStr ''Hi {name}!''), (''main_points'', HRef 2)],
        HArr [HStr ''{name}'', HNum 3],
        HObj [(''name'', HStr ''Intro''), (''content'', HRef 4)],
        HObj [(''opening'', HStr ''Hi Ann!''), (''main_points'', HRef 5)],
        HArr [HStr ''Ann'', HNum 3]])"
  by (simp add: replaceVariables_h_def get_member_def Let_def eval_nat_numeral push_def
      assign_def replaceInString.simps variableRegex_at_def replacer_def)

theorem replaceVariables_substitutes_witness:
  "replaceInString (property_read [''name'' \<mapsto> ''Ann'']) ''Hi there'' = ''Hi there''
   \<and> replaceInString (property_read [''name'' \<mapsto> ''Ann'']) ''Hi {name'' = ''Hi {name''
   \<and> replaceInString (property_read [''name'' \<mapsto> ''Ann'']) ''{}{name}'' = ''{}Ann''
   \<and> replaceInString (property_read [''name'' \<mapsto> ''Ann'']) ''Hi {name}!'' = ''Hi Ann!''
   \<and> replaceInString (property_read [''name'' \<mapsto> ''Ann'']) ''Hi {nam}!'' = ''Hi {nam}!''
   \<and> replaceInString (property_read [''name'' \<mapsto> ''Ann'']) ''Hi {constructor}!''
       = ''Hi function Object() { [native code] }!''
   \<and> replaceInString (property_read [''name'' \<mapsto> []]) ''Hi {name}!'' = ''Hi {name}!''
   \<and> (\<exists>v2 h2.
         replaceInObject_h 3 [''name'' \<mapsto> ''Ann'']
           [HObj [(''name'', HStr ''Intro''), (''content'', HRef 1)],
            HObj [(''opening'', HStr ''Hi {name}!''), (''main_points'', HRef 2)],
            HArr [HStr ''{name}'', HNum 3]]
           (HRef 1) = Some (v2, h2)
         \<and> 3 \<le> length h2
         \<and> h2 ! 0 = HObj [(''name'', HStr ''Intro''), (''content'', HRef 1)]
         \<and> h2 ! 1 = HObj [(''opening'', HStr ''Hi {name}!''), (''main_points'', HRef 2)]
         \<and> h2 ! 2 = HArr [HStr ''{name}'', HNum 3]
         \<and> represents_in 3 (length h2) h2 v2
             (JObj [(''opening'', JStr ''Hi Ann!''), (''main_points'', JArr [JStr ''Ann'', JNum 3])])
         \<and> represents_in 0 3 h2 (HRef 1)
             (JObj [(''opening'', JStr ''Hi {name}!''),
                    (''main_points'', JArr [JStr ''{name}'', JNum 3])]))
   \<and> (\<exists>c' h4.
         replaceVariables_h 3 [''name'' \<mapsto> ''Ann'']
           [HObj [(''name'', HStr ''Intro''), (''content'', HRef 1)],
            HObj [(''opening'', HStr ''Hi {name}!''), (''main_points'', HRef 2)],
            HArr [HStr ''{name}'', HNum 3]]
           0 = Some (HRef 3, h4)
         \<and> h4 ! 0 = HObj [(''name'', HStr ''Intro''), (''content'', HRef 1)]
         \<and> h4 ! 1 = HObj [(''opening'', HStr ''Hi {name}!''), (''main_points'', HRef 2)]
         \<and> h4 ! 2 = HArr [HStr ''{name}'', HNum 3]
         \<and> h4 ! 3 = HObj [(''name'', HStr ''Intro''), (''content'', c')]
         \<and> represents_in 4 (length h4) h4 c'
             (JObj [(''opening'', JStr ''Hi Ann!''), (''main_points'', JArr [JStr ''Ann'', JNum 3])]))"
proof -
  let ?own = "[''name'' \<mapsto> ''Ann'']"
  let ?V = "property_read ?own"
  let ?h = "[HObj [(''name'', HStr ''Intro''), (''content'', HRef 1)],
             HObj [(''opening'', HStr ''Hi {name}!''), (''main_points'', HRef 2)],
             HArr [HStr ''{name}'', HNum 3]]"
  let ?t = "JObj [(''opening'', JStr ''Hi {name}!''),
                  (''main_points'', JArr [JStr ''{name}'', JNum 3])]"
  let ?t' = "JObj [(''opening'', JStr ''Hi Ann!''), (''main_points'', JArr [JStr ''Ann'', JNum 3])]"
  have p: "Object_prototype ''nam'' = None"
    "Object_prototype ''constructor'' = Some ''function Object() { [native code] }''"
    by (simp_all add: Object_prototype_def native_function_def)
  have a: "replaceInString ?V ''Hi there'' = ''Hi there''"
    using replaceVariables_substitutes [where str = "''Hi there''" and own = ?own] by simp
  have e: "replaceInString W ''!'' = ''!''" for W
    by (simp add: replaceInString.simps variableRegex_at_def)
  have b: "replaceInString ?V ''Hi {name'' = ''Hi {name''"
    using replaceVariables_substitutes [where pre = "''Hi ''" and rest = "''name''" and own = ?own]
    by simp
  have c: "replaceInString ?V ''{}{name}'' = ''{}'' @ replaceInString ?V ''{name}''"
    using replaceVariables_substitutes [where pre = "[]" and rest = "''{name}''" and own = ?own]
    by simp
  have c': "replaceInString ?V ''{name}'' = ''Ann''"
    using replaceVariables_substitutes
      [where pre = "[]" and tok = "''name''" and rest = "[]" and str = "[]" and own = ?own]
    by simp
  have d: "replaceInString ?V ''Hi {name}!'' = ''Hi Ann!''"
    using replaceVariables_substitutes
      [where pre = "''Hi ''" and tok = "''name''" and rest = "''!''" and own = ?own] e
    by simp
  have f: "replaceInString ?V ''Hi {nam}!'' = ''Hi {nam}!''"
    using replaceVariables_substitutes
      [where pre = "''Hi ''" and tok = "''nam''" and rest = "''!''" and own = ?own] e p
    by simp
  have g: "replaceInString ?V ''Hi {constructor}!'' = ''Hi function Object() { [native code] }!''"
    using replaceVariables_substitutes
      [where pre = "''Hi ''" and tok = "''constructor''" and rest = "''!''" and own = ?own] e p
    by simp
  have i: "replaceInString (property_read [''name'' \<mapsto> []]) ''Hi {name}!'' = ''Hi {name}!''"
    using replaceVariables_substitutes
      [where pre = "''Hi ''" and tok = "''name''" and rest = "''!''"
        and own = "[''name'' \<mapsto> []]"] e
    by simp
  have r: "represents_in 0 (length ?h) ?h (HRef 1) ?t"
    by (simp add: eval_nat_numeral)
  have ht: "height ?t < 3" by simp
  have s: "replaceInObject ?own ?t = ?t'"
    by (simp add: replaceInString.simps variableRegex_at_def replacer_def)
  have "\<exists>v2 h2. replaceInObject_h 3 ?own ?h (HRef 1) = Some (v2, h2)
          \<and> represents_in (length ?h) (length h2) h2 v2 (replaceInObject ?own ?t)
          \<and> represents_in 0 (length ?h) h2 (HRef 1) ?t"
    using replaceVariables_substitutes
      [where V = ?own and n = 3 and h = ?h and v = "HRef 1" and t = ?t,
        THEN conjunct2, THEN conjunct2, THEN conjunct2, THEN conjunct2, THEN conjunct2, THEN conjunct2, THEN conjunct2, THEN conjunct2, THEN conjunct2, THEN conjunct2, THEN conjunct2, THEN conjunct2, THEN conjunct2, THEN conjunct1] r ht
    by blast
  then obtain v2 h2 where x: "replaceInObject_h 3 ?own ?h (HRef 1) = Some (v2, h2)"
    and y: "represents_in (length ?h) (length h2) h2 v2 (replaceInObject ?own ?t)"
    and z: "represents_in 0 (length ?h) h2 (HRef 1) ?t"
    by blast
  have fr: "length ?h \<le> length h2 \<and> (\<forall>a<length ?h. h2 ! a = ?h ! a)"
    using replaceVariables_substitutes
      [where V = ?own and n = 3 and h = ?h and v = "HRef 1" and ?v1.0 = v2 and ?h1.0 = h2,
        THEN conjunct2, THEN conjunct2, THEN conjunct2, THEN conjunct2, THEN conjunct2, THEN conjunct2, THEN conjunct2, THEN conjunct2, THEN conjunct2, THEN conjunct2, THEN conjunct2, THEN conjunct2, THEN conjunct1] x
    by blast
  have fr0: "h2 ! 0 = ?h ! 0" "h2 ! 1 = ?h ! 1" "h2 ! 2 = ?h ! 2" "3 \<le> length h2"
    using fr by simp_all
  have len: "length ?h = 3" by simp
  have y': "represents_in 3 (length h2) h2 v2 ?t'"
    using y by (simp only: len s)
  have z': "represents_in 0 3 h2 (HRef 1) ?t"
    using z by (simp only: len)
  have j: "\<exists>v2 h2.
         replaceInObject_h 3 ?own ?h (HRef 1) = Some (v2, h2)
         \<and> 3 \<le> length h2
         \<and> h2 ! 0 = HObj [(''name'', HStr ''Intro''), (''content'', HRef 1)]
         \<and> h2 ! 1 = HObj [(''opening'', HStr ''Hi {name}!''), (''main_points'', HRef 2)]
         \<and> h2 ! 2 = HArr [HStr ''{name}'', HNum 3]
         \<and> represents_in 3 (length h2) h2 v2 ?t'
         \<and> represents_in 0 3 h2 (HRef 1) ?t"
    using x y' z' fr0 by (intro exI [of _ v2] exI [of _ h2] conjI) simp_all
  have m: "map_of [(''name'', HStr ''Intro''), (''content'', HRef 1)] ''content'' = Some (HRef 1)"
    by simp
  have q: "?h ! 0 = HObj [(''name'', HStr ''Intro''), (''content'', HRef 1)]" by simp
  have l0: "0 < length ?h" by simp
  have "\<exists>c' h4. replaceVariables_h 3 ?own ?h 0 = Some (HRef (length ?h), h4)
          \<and> h4 ! length ?h
              = HObj (set_member [(''name'', HStr ''Intro''), (''content'', HRef 1)] ''content'' c')
          \<and> represents_in (Suc (length ?h)) (length h4) h4 c' (replaceInObject ?own ?t)
          \<and> represents_in 0 (length ?h) h4 (HRef 1) ?t"
    using replaceVariables_substitutes
      [where V = ?own and n = 3 and h = ?h and this = 0 and t = ?t and c = "HRef 1"
        and kvs = "[(''name'', HStr ''Intro''), (''content'', HRef 1)]",
        THEN conjunct2, THEN conjunct2, THEN conjunct2, THEN conjunct2, THEN conjunct2, THEN conjunct2, THEN conjunct2, THEN conjunct2, THEN conjunct2, THEN conjunct2, THEN conjunct2, THEN conjunct2, THEN conjunct2, THEN conjunct2, THEN conjunct2] r ht m q l0
    by blast
  then obtain c' h4 where k1: "replaceVariables_h 3 ?own ?h 0 = Some (HRef (length ?h), h4)"
    and k2: "h4 ! length ?h
               = HObj (set_member [(''name'', HStr ''Intro''), (''content'', HRef 1)] ''content'' c')"
    and k3: "represents_in (Suc (length ?h)) (length h4) h4 c' (replaceInObject ?own ?t)"
    by blast
  have k4: "\<forall>a<length ?h. h4 ! a = ?h ! a"
    using replaceVariables_substitutes
      [where V = ?own and n = 3 and h = ?h and this = 0 and ?v3.0 = "HRef (length ?h)"
        and ?h3.0 = h4,
        THEN conjunct2, THEN conjunct2, THEN conjunct2, THEN conjunct2, THEN conjunct2, THEN conjunct2, THEN conjunct2, THEN conjunct2, THEN conjunct2, THEN conjunct2, THEN conjunct2, THEN conjunct2, THEN conjunct2, THEN conjunct2, THEN conjunct1] k1
    by blast
  have k5: "h4 ! 0 = ?h ! 0" "h4 ! 1 = ?h ! 1" "h4 ! 2 = ?h ! 2"
    using k4 by simp_all
  have k1': "replaceVariables_h 3 ?own ?h 0 = Some (HRef 3, h4)"
    using k1 by (simp only: len)
  have k2': "h4 ! 3 = HObj [(''name'', HStr ''Intro''), (''content'', c')]"
    using k2 by (simp only: len) simp
  have s4: "Suc 3 = (4::nat)" by simp
  have k3': "represents_in 4 (length h4) h4 c' ?t'"
    using k3 by (simp only: len s s4)
  have k: "\<exists>c' h4.
         replaceVariables_h 3 ?own ?h 0 = Some (HRef 3, h4)
         \<and> h4 ! 0 = HObj [(''name'', HStr ''Intro''), (''content'', HRef 1)]
         \<and> h4 ! 1 = HObj [(''opening'', HStr ''Hi {name}!''), (''main_points'', HRef 2)]
         \<and> h4 ! 2 = HArr [HStr ''{name}'', HNum 3]
         \<and> h4 ! 3 = HObj [(''name'', HStr ''Intro''), (''content'', c')]
         \<and> represents_in 4 (length h4) h4 c' ?t'"
    using k1' k2' k3' k5 by (intro exI [of _ c'] exI [of _ h4] conjI) simp_all
  have cc: "replaceInString ?V ''{}{name}'' = ''{}Ann''"
    using c c' by simp
  show ?thesis
    using a b cc d f g i j k by (intro conjI) assumption+
qed

theorem replaceVariables_empty_value_counterexample:
  "replaceInObject (property_read [''name'' \<mapsto> []]) (JObj [(''opening'', JStr ''Hi {name}!'')])
     = JObj [(''opening'', JStr ''Hi {name}!'')]"
  by (simp add: replaceInString.simps variableRegex_at_def replacer_def property_read_def)

section \<open>Extraction reads the serialised content\<close>

text \<open>
  Claim C8. \<open>extractVariables\<close> runs the pattern over \<^verbatim>\<open>JSON.stringify(this.content)\<close>,
  so the braces that delimit a mapping in the serialisation take part in the match. For
  the content \<^verbatim>\<open>{opening: "Hi {firstName} from {company}"}\<close> the first match starts at
  the brace that opens the serialised mapping, and the names returned are
  \<^verbatim>\<open>"opening":"Hi {firstName\<close> and \<^verbatim>\<open>company\<close>, not \<^verbatim>\<open>firstName\<close> and
  \<^verbatim>\<open>company\<close>.
\<close>

theorem extractVariables_structural_braces:
  "extractVariables_content (JObj [(''opening'', JStr ''Hi {firstName} from {company}'')])
     = [[dq] @ ''opening'' @ [dq] @ '':'' @ [dq] @ ''Hi {firstName'', ''company'']"
  by (simp add: extractVariables_content_def QuoteJSONString_def json_escape_def json_escape_char_def
      dq_def bs_def extract_loop.simps variableRegex_at_def Set_add_def)

section \<open>Full substitution\<close>

lemma replacer_brace_free:
  "V tok = Some v \<Longrightarrow> v \<noteq> [] \<Longrightarrow> CHR ''{'' \<notin> set v \<Longrightarrow> CHR ''{'' \<notin> set (replacer V tok)"
  by (simp add: replacer_def)

lemma replaceInString_brace_free:
  "CHR ''{'' \<notin> set (literal_text str)
     \<Longrightarrow> \<forall>tok\<in>set (placeholders str). CHR ''{'' \<notin> set (replacer V tok)
     \<Longrightarrow> CHR ''{'' \<notin> set (replaceInString V str)"
proof (induction V str rule: replaceInString.induct)
  case (1 V str)
  show ?case
  proof (cases "variableRegex_exec str")
    case None
    then show ?thesis
      using "1.prems"(1) by (simp add: replaceInString_no_match literal_text.simps [of str])
  next
    case (Some m)
    obtain pre tok rest where m: "m = (pre, tok, rest)" by (cases m)
    have e: "variableRegex_exec str = Some (pre, tok, rest)" using Some m by simp
    have l: "literal_text str = pre @ literal_text rest"
      using e by (subst literal_text.simps) simp
    have p: "placeholders str = tok # placeholders rest"
      using e by (subst placeholders.simps) simp
    have "CHR ''{'' \<notin> set (replaceInString V rest)"
      using "1.IH" [OF e refl refl] "1.prems" l p by simp
    moreover have "CHR ''{'' \<notin> set pre" using "1.prems"(1) l by simp
    moreover have "CHR ''{'' \<notin> set (replacer V tok)" using "1.prems"(2) p by simp
    ultimately show ?thesis using e by (simp add: replaceInString_match)
  qed
qed

lemma hex_digit_not_brace: "hex_digit n \<noteq> CHR ''{''" "CHR ''{'' \<noteq> hex_digit n"
proof -
  have "hex_digit n \<in> set ''0123456789abcdef''"
    unfolding hex_digit_def by (rule nth_mem) simp
  then show "hex_digit n \<noteq> CHR ''{''" by auto
  then show "CHR ''{'' \<noteq> hex_digit n" by auto
qed

lemma digits_brace_free: "CHR ''{'' \<notin> set (digits n)"
proof (induction n rule: digits.induct)
  case (1 n)
  then show ?case
    by (subst digits.simps) (simp add: hex_digit_not_brace)
qed

lemma number_toString_brace_free: "CHR ''{'' \<notin> set (number_toString n)"
  by (simp add: number_toString_def digits_brace_free)

lemma json_escape_char_brace_free:
  "c \<noteq> CHR ''{'' \<Longrightarrow> CHR ''{'' \<notin> set (json_escape_char c)"
  by (simp add: json_escape_char_def dq_def bs_def hex_digit_not_brace)

lemma QuoteJSONString_brace_free:
  "CHR ''{'' \<notin> set s \<Longrightarrow> CHR ''{'' \<notin> set (QuoteJSONString s)"
proof -
  assume "CHR ''{'' \<notin> set s"
  then have "\<forall>c\<in>set s. c \<noteq> CHR ''{''" by auto
  then have "\<forall>c\<in>set s. CHR ''{'' \<notin> set (json_escape_char c)"
    using json_escape_char_brace_free by blast
  then show ?thesis by (simp add: QuoteJSONString_def json_escape_def dq_def)
qed

lemma join_brace_free:
  "CHR ''{'' \<notin> set sep \<Longrightarrow> \<forall>x\<in>set xs. CHR ''{'' \<notin> set x
     \<Longrightarrow> CHR ''{'' \<notin> set (join sep xs)"
  by (induction sep xs rule: join.induct) auto

lemma JSON_stringify_brace_free:
  "mapping_free c \<Longrightarrow> \<forall>s\<in>set (string_leaves c). CHR ''{'' \<notin> set s
     \<Longrightarrow> CHR ''{'' \<notin> set (JSON_stringify c)"
proof (induction c)
  case (JArr xs)
  have "\<forall>x\<in>set (map JSON_stringify xs). CHR ''{'' \<notin> set x"
    using JArr by (auto simp: list_all_iff)
  then have "CHR ''{'' \<notin> set (join '','' (map JSON_stringify xs))"
    by (intro join_brace_free) auto
  then show ?case by simp
qed (simp_all add: number_toString_brace_free QuoteJSONString_brace_free)

lemma mapping_free_replaceInObject:
  "mapping_free c \<Longrightarrow> mapping_free (replaceInObject V c)"
  by (induction c) (auto simp: list_all_iff)

lemma string_leaves_replaceInObject:
  "mapping_free c
     \<Longrightarrow> string_leaves (replaceInObject V c) = map (replaceInString V) (string_leaves c)"
proof (induction c)
  case (JArr xs)
  have h: "map (\<lambda>x. string_leaves (replaceInObject V x)) xs
          = map (\<lambda>x. map (replaceInString V) (string_leaves x)) xs"
    using JArr by (intro map_cong) (auto simp: list_all_iff)
  have "string_leaves (replaceInObject V (JArr xs))
          = concat (map (\<lambda>x. string_leaves (replaceInObject V x)) xs)"
    by (simp add: comp_def)
  also have "\<dots> = concat (map (\<lambda>x. map (replaceInString V) (string_leaves x)) xs)"
    by (simp only: h)
  also have "\<dots> = map (replaceInString V) (string_leaves (JArr xs))"
    by (simp add: map_concat comp_def)
  finally show ?case .
qed simp_all

lemma extract_loop_no_brace: "CHR ''{'' \<notin> set s \<Longrightarrow> extract_loop s vs = vs"
  by (subst extract_loop.simps) (simp add: variableRegex_exec_no_brace)

text \<open>
  When no string leaf has an opening brace outside its placeholders and every
  placeholder of every leaf is given a non-empty value without an opening brace, the
  substituted content has no opening brace left, and nothing is extracted from it.
\<close>

lemma full_substitution_leaves:
  assumes "mapping_free (content s)"
    and "\<forall>str\<in>set (string_leaves (content s)).
           CHR ''{'' \<notin> set (literal_text str)
           \<and> (\<forall>tok\<in>set (placeholders str). \<exists>v. V tok = Some v \<and> v \<noteq> [] \<and> CHR ''{'' \<notin> set v)"
  shows "extractVariables (replaceVariables s V) = []"
proof -
  let ?c = "replaceInObject V (content s)"
  have f: "mapping_free ?c"
    using assms(1) by (rule mapping_free_replaceInObject)
  have "\<forall>str\<in>set (string_leaves (content s)). CHR ''{'' \<notin> set (replaceInString V str)"
  proof
    fix str assume m: "str \<in> set (string_leaves (content s))"
    have "\<forall>tok\<in>set (placeholders str). CHR ''{'' \<notin> set (replacer V tok)"
    proof
      fix tok assume "tok \<in> set (placeholders str)"
      then obtain v where "V tok = Some v" and "v \<noteq> []" and "CHR ''{'' \<notin> set v"
        using assms(2) m by blast
      then show "CHR ''{'' \<notin> set (replacer V tok)" by (rule replacer_brace_free)
    qed
    then show "CHR ''{'' \<notin> set (replaceInString V str)"
      using assms(2) m by (intro replaceInString_brace_free) auto
  qed
  then have "\<forall>str\<in>set (string_leaves ?c). CHR ''{'' \<notin> set str"
    using assms(1) by (simp add: string_leaves_replaceInObject)
  then have "CHR ''{'' \<notin> set (JSON_stringify ?c)"
    using f by (intro JSON_stringify_brace_free) auto
  then show ?thesis
    by (simp add: extractVariables_def replaceVariables_def extractVariables_content_def
        extract_loop_no_brace)
qed


section \<open>Extraction on contents without key-value mappings\<close>

lemma extract_loop_placeholders: "extract_loop s vs = foldl Set_add vs (placeholders s)"
proof (induction s vs rule: extract_loop.induct)
  case (1 s vs)
  show ?case
  proof (cases "variableRegex_exec s")
    case None
    then show ?thesis
      by (simp add: extract_loop.simps [of s] placeholders.simps [of s])
  next
    case (Some m)
    obtain pre tok rest where m: "m = (pre, tok, rest)" by (cases m)
    have e: "variableRegex_exec s = Some (pre, tok, rest)" using Some m by simp
    show ?thesis
      using "1.IH" [OF e refl refl] e
      by (simp add: extract_loop.simps [of s] placeholders.simps [of s])
  qed
qed

lemma set_foldl_Set_add: "set (foldl Set_add vs xs) = set vs \<union> set xs"
  by (induction xs arbitrary: vs) (auto simp: Set_add_def)

lemma distinct_foldl_Set_add: "distinct vs \<Longrightarrow> distinct (foldl Set_add vs xs)"
  by (induction xs arbitrary: vs) (auto simp: Set_add_def)

lemma no_open_brace_appendI:
  "no_open_brace a \<Longrightarrow> no_open_brace b \<Longrightarrow> no_open_brace (a @ b)"
  by (induction a) auto

lemma no_open_brace_closing:
  "CHR ''}'' \<in> set b \<Longrightarrow> no_open_brace b \<Longrightarrow> no_open_brace (a @ b)"
  by (induction a) auto

lemma placeholders_no_brace: "CHR ''{'' \<notin> set a \<Longrightarrow> placeholders a = []"
  by (simp add: placeholders.simps [of a] variableRegex_exec_no_brace)

lemma placeholders_append:
  "no_open_brace a \<Longrightarrow> placeholders (a @ b) = placeholders a @ placeholders b"
proof (induction a rule: placeholders.induct)
  case (1 a)
  show ?case
  proof (cases "variableRegex_exec a")
    case None
    show ?thesis
    proof (cases "variableRegex_exec b")
      case n: None
      have "variableRegex_exec (a @ b) = None"
        using variableRegex_exec_append_None [OF None "1.prems", of b] n by simp
      then show ?thesis
        using None n
        by (simp add: placeholders.simps [of "a @ b"] placeholders.simps [of a]
            placeholders.simps [of b])
    next
      case (Some m)
      obtain pre tok rest where m: "m = (pre, tok, rest)" by (cases m)
      have "variableRegex_exec (a @ b) = Some (a @ pre, tok, rest)"
        using variableRegex_exec_append_None [OF None "1.prems", of b] Some m by simp
      then show ?thesis
        using None Some m
        by (simp add: placeholders.simps [of "a @ b"] placeholders.simps [of a]
            placeholders.simps [of b])
    qed
  next
    case (Some m)
    obtain pre tok rest where m: "m = (pre, tok, rest)" by (cases m)
    have e: "variableRegex_exec a = Some (pre, tok, rest)" using Some m by simp
    have "a = pre @ (CHR ''{'' # tok @ [CHR ''}'']) @ rest"
      using variableRegex_exec_Some [OF e] by simp
    then have "no_open_brace ((pre @ (CHR ''{'' # tok @ [CHR ''}''])) @ rest)"
      using "1.prems" by simp
    then have o: "no_open_brace rest" by (rule no_open_brace_append)
    have ih: "placeholders (rest @ b) = placeholders rest @ placeholders b"
      using "1.IH" [OF e refl refl o] .
    have "variableRegex_exec (a @ b) = Some (pre, tok, rest @ b)"
      using variableRegex_exec_append_Some [OF e] .
    then show ?thesis
      using e ih by (simp add: placeholders.simps [of "a @ b"] placeholders.simps [of a])
  qed
qed

lemma literal_text_no_open_brace:
  "CHR ''{'' \<notin> set (literal_text s) \<Longrightarrow> no_open_brace s"
proof (induction s rule: literal_text.induct)
  case (1 s)
  show ?case
  proof (cases "variableRegex_exec s")
    case None
    then show ?thesis
      using "1.prems" by (simp add: literal_text.simps [of s] no_open_brace_no_brace)
  next
    case (Some m)
    obtain pre tok rest where m: "m = (pre, tok, rest)" by (cases m)
    have e: "variableRegex_exec s = Some (pre, tok, rest)" using Some m by simp
    have l: "literal_text s = pre @ literal_text rest"
      using e by (simp add: literal_text.simps [of s])
    have r: "no_open_brace rest"
      using "1.IH" [OF e refl refl] "1.prems" l by simp
    have s: "s = (pre @ CHR ''{'' # tok) @ (CHR ''}'' # rest)"
      using variableRegex_exec_Some [OF e] by simp
    have "no_open_brace ((pre @ CHR ''{'' # tok) @ (CHR ''}'' # rest))"
      by (rule no_open_brace_closing) (simp_all add: r)
    then show ?thesis using s by simp
  qed
qed

lemma hex_digit_not_closing: "hex_digit n \<noteq> CHR ''}''" "CHR ''}'' \<noteq> hex_digit n"
proof -
  have "hex_digit n \<in> set ''0123456789abcdef''"
    unfolding hex_digit_def by (rule nth_mem) simp
  then show "hex_digit n \<noteq> CHR ''}''" by auto
  then show "CHR ''}'' \<noteq> hex_digit n" by auto
qed

lemma json_escape_char_braces:
  "json_escape_char CHR ''{'' = ''{''"
  "json_escape_char CHR ''}'' = ''}''"
  by (simp_all add: json_escape_char_def dq_def bs_def)

lemma json_escape_char_not_Nil: "json_escape_char c \<noteq> []"
  by (simp add: json_escape_char_def)

lemma json_escape_char_no_closing:
  "c \<noteq> CHR ''}'' \<Longrightarrow> CHR ''}'' \<notin> set (json_escape_char c)"
  by (simp add: json_escape_char_def dq_def bs_def hex_digit_not_closing)

lemma json_escape_Cons: "json_escape (c # cs) = json_escape_char c @ json_escape cs"
  by (simp add: json_escape_def)

lemma json_escape_Nil: "json_escape [] = []"
  by (simp add: json_escape_def)

lemma json_escape_append: "json_escape (a @ b) = json_escape a @ json_escape b"
  by (simp add: json_escape_def)

lemma json_escape_eq_Nil: "json_escape s = [] \<longleftrightarrow> s = []"
  by (cases s) (simp_all add: json_escape_Nil json_escape_Cons json_escape_char_not_Nil)

lemma json_escape_no_closing:
  "CHR ''}'' \<notin> set s \<Longrightarrow> CHR ''}'' \<notin> set (json_escape s)"
  by (induction s) (auto simp: json_escape_Nil json_escape_Cons json_escape_char_no_closing)

lemma json_escape_no_brace:
  "CHR ''{'' \<notin> set s \<Longrightarrow> CHR ''{'' \<notin> set (json_escape s)"
  by (induction s) (auto simp: json_escape_Nil json_escape_Cons json_escape_char_brace_free)

lemma json_escape_closing: "CHR ''}'' \<in> set s \<Longrightarrow> CHR ''}'' \<in> set (json_escape s)"
  by (induction s) (auto simp: json_escape_Cons json_escape_char_braces)

lemma variableRegex_at_json_escape:
  "variableRegex_at (json_escape s)
     = map_option (\<lambda>(tok, rest). (json_escape tok, json_escape rest)) (variableRegex_at s)"
proof (cases "variableRegex_at s")
  case (Some m)
  obtain tok rest where m: "m = (tok, rest)" by (cases m)
  have s: "s = CHR ''{'' # tok @ CHR ''}'' # rest" and t: "tok \<noteq> []"
    and c: "CHR ''}'' \<notin> set tok"
    using Some m by (simp_all add: variableRegex_at_Some)
  have "json_escape s = CHR ''{'' # json_escape tok @ CHR ''}'' # json_escape rest"
    using s by (simp add: json_escape_Cons json_escape_append json_escape_char_braces)
  moreover have "json_escape tok \<noteq> []" using t by (simp add: json_escape_eq_Nil)
  moreover have "CHR ''}'' \<notin> set (json_escape tok)" using c by (rule json_escape_no_closing)
  ultimately have "variableRegex_at (json_escape s) = Some (json_escape tok, json_escape rest)"
    by (simp add: variableRegex_at_Some)
  then show ?thesis using Some m by simp
next
  case None
  have "variableRegex_at (json_escape s) = None"
  proof (rule ccontr)
    assume "variableRegex_at (json_escape s) \<noteq> None"
    then obtain tok' rest' where a: "variableRegex_at (json_escape s) = Some (tok', rest')"
      by auto
    then have e: "json_escape s = CHR ''{'' # tok' @ CHR ''}'' # rest'" and t: "tok' \<noteq> []"
      and c: "CHR ''}'' \<notin> set tok'"
      by (simp_all add: variableRegex_at_Some)
    obtain x cs where s: "s = x # cs"
      using e by (cases s) (auto simp: json_escape_Nil)
    have x: "x = CHR ''{''"
    proof (rule ccontr)
      assume "x \<noteq> CHR ''{''"
      then have "CHR ''{'' \<notin> set (json_escape_char x)" by (rule json_escape_char_brace_free)
      moreover have "hd (json_escape s) \<in> set (json_escape_char x)"
        using s json_escape_char_not_Nil [of x] by (simp add: json_escape_Cons)
      ultimately show False using e by simp
    qed
    then have e': "json_escape cs = tok' @ CHR ''}'' # rest'"
      using e s by (simp add: json_escape_Cons json_escape_char_braces)
    have "CHR ''}'' \<in> set cs"
    proof (rule ccontr)
      assume "CHR ''}'' \<notin> set cs"
      then have "CHR ''}'' \<notin> set (json_escape cs)" by (rule json_escape_no_closing)
      then show False using e' by simp
    qed
    then have d: "dropWhile (\<lambda>c. c \<noteq> CHR ''}'') cs \<noteq> []"
      by (simp add: dropWhile_eq_Nil_conv)
    then have "takeWhile (\<lambda>c. c \<noteq> CHR ''}'') cs = []"
      using None s x by (simp add: variableRegex_at_def Let_def split: if_splits)
    then obtain cs' where "cs = CHR ''}'' # cs'"
      using d by (cases cs) (auto split: if_splits)
    then have "json_escape cs = CHR ''}'' # json_escape cs'"
      by (simp add: json_escape_Cons json_escape_char_braces)
    then show False using e' t c by (cases tok') auto
  qed
  then show ?thesis using None by simp
qed

lemma variableRegex_exec_prefix:
  "CHR ''{'' \<notin> set x
     \<Longrightarrow> variableRegex_exec (x @ y)
         = map_option (\<lambda>(pre, tok, rest). (x @ pre, tok, rest)) (variableRegex_exec y)"
  using variableRegex_exec_append_None [of x y]
  by (simp add: variableRegex_exec_no_brace no_open_brace_no_brace split: option.splits)

lemma variableRegex_exec_json_escape:
  "variableRegex_exec (json_escape s)
     = map_option (\<lambda>(pre, tok, rest). (json_escape pre, json_escape tok, json_escape rest))
         (variableRegex_exec s)"
proof (induction s)
  case Nil
  then show ?case by (simp add: json_escape_Nil)
next
  case (Cons c cs)
  show ?case
  proof (cases "variableRegex_at (c # cs)")
    case (Some m)
    obtain tok rest where m: "m = (tok, rest)" by (cases m)
    have a: "variableRegex_at (json_escape (c # cs)) = Some (json_escape tok, json_escape rest)"
      using Some m by (simp add: variableRegex_at_json_escape)
    then obtain x xs where j: "json_escape (c # cs) = x # xs"
      by (cases "json_escape (c # cs)") (auto simp: variableRegex_at_def)
    have "variableRegex_exec (x # xs) = Some ([], json_escape tok, json_escape rest)"
      using a j by simp
    then show ?thesis using Some m j by (simp add: json_escape_Nil)
  next
    case None
    have n: "variableRegex_at (json_escape (c # cs)) = None"
      using None by (simp add: variableRegex_at_json_escape)
    show ?thesis
    proof (cases "c = CHR ''{''")
      case True
      then have j: "json_escape (c # cs) = CHR ''{'' # json_escape cs"
        by (simp add: json_escape_Cons json_escape_char_braces)
      have "variableRegex_exec (CHR ''{'' # json_escape cs)
              = map_option (\<lambda>(pre, tok, rest). (CHR ''{'' # pre, tok, rest))
                  (variableRegex_exec (json_escape cs))"
        using n j by (simp split: option.splits)
      then show ?thesis
        using None True j Cons.IH
        by (simp add: json_escape_Cons json_escape_char_braces split: option.splits)
    next
      case False
      then have b: "CHR ''{'' \<notin> set (json_escape_char c)" by (rule json_escape_char_brace_free)
      have "variableRegex_exec (json_escape_char c @ json_escape cs)
              = map_option (\<lambda>(pre, tok, rest). (json_escape_char c @ pre, tok, rest))
                  (variableRegex_exec (json_escape cs))"
        using b by (rule variableRegex_exec_prefix)
      then show ?thesis
        using None Cons.IH
        by (simp add: json_escape_Cons split: option.splits)
    qed
  qed
qed

lemma placeholders_json_escape:
  "placeholders (json_escape s) = map json_escape (placeholders s)"
proof (induction s rule: placeholders.induct)
  case (1 s)
  show ?case
  proof (cases "variableRegex_exec s")
    case None
    then show ?thesis
      by (simp add: placeholders.simps [of s] placeholders.simps [of "json_escape s"]
          variableRegex_exec_json_escape)
  next
    case (Some m)
    obtain pre tok rest where m: "m = (pre, tok, rest)" by (cases m)
    have e: "variableRegex_exec s = Some (pre, tok, rest)" using Some m by simp
    show ?thesis
      using "1.IH" [OF e refl refl] e
      by (simp add: placeholders.simps [of s] placeholders.simps [of "json_escape s"]
          variableRegex_exec_json_escape)
  qed
qed

lemma no_open_brace_prefix:
  "CHR ''{'' \<notin> set x \<Longrightarrow> no_open_brace (x @ y) = no_open_brace y"
  by (induction x) auto

lemma no_open_brace_json_escape: "no_open_brace s \<Longrightarrow> no_open_brace (json_escape s)"
proof (induction s)
  case Nil
  then show ?case by (simp add: json_escape_Nil)
next
  case (Cons c cs)
  show ?case
  proof (cases "c = CHR ''{''")
    case True
    then have "CHR ''}'' \<in> set (json_escape cs)"
      using Cons.prems by (simp add: json_escape_closing)
    then show ?thesis
      using True Cons by (simp add: json_escape_Cons json_escape_char_braces)
  next
    case False
    then have "CHR ''{'' \<notin> set (json_escape_char c)" by (rule json_escape_char_brace_free)
    then show ?thesis
      using Cons by (simp add: json_escape_Cons no_open_brace_prefix)
  qed
qed

lemma placeholders_join:
  "CHR ''{'' \<notin> set sep \<Longrightarrow> \<forall>y\<in>set ys. no_open_brace y
     \<Longrightarrow> placeholders (join sep ys) = concat (map placeholders ys)
         \<and> no_open_brace (join sep ys)"
proof (induction sep ys rule: join.induct)
  case (1 sep)
  then show ?case by (simp add: placeholders_no_brace)
next
  case (2 sep x)
  then show ?case by simp
next
  case (3 sep x y ys)
  have ih: "placeholders (join sep (y # ys)) = concat (map placeholders (y # ys))"
    and o: "no_open_brace (join sep (y # ys))"
    using 3 by simp_all
  have x: "no_open_brace x" using "3.prems" by simp
  have s: "no_open_brace sep" using "3.prems" by (simp add: no_open_brace_no_brace)
  have "placeholders (x @ sep @ join sep (y # ys))
          = placeholders x @ placeholders sep @ placeholders (join sep (y # ys))"
    using x s by (simp add: placeholders_append)
  moreover have "placeholders sep = []"
    using "3.prems" by (simp add: placeholders_no_brace)
  moreover have "no_open_brace (x @ sep @ join sep (y # ys))"
    using x s o by (simp add: no_open_brace_appendI)
  ultimately show ?case using ih by simp
qed

lemma placeholders_Cons: "c \<noteq> CHR ''{'' \<Longrightarrow> placeholders (c # s) = placeholders s"
  using placeholders_append [of "[c]" s] by (simp add: placeholders_no_brace)

lemma placeholders_QuoteJSONString:
  "no_open_brace s
     \<Longrightarrow> placeholders (QuoteJSONString s) = map json_escape (placeholders s)
         \<and> no_open_brace (QuoteJSONString s)"
proof -
  assume a: "no_open_brace s"
  have q: "CHR ''{'' \<notin> set [dq]" by (simp add: dq_def)
  have e: "no_open_brace (json_escape s)" using a by (rule no_open_brace_json_escape)
  have "placeholders (dq # json_escape s @ [dq]) = placeholders (json_escape s @ [dq])"
    using q by (simp add: placeholders_Cons)
  also have "\<dots> = placeholders (json_escape s) @ placeholders [dq]"
    using e by (rule placeholders_append)
  also have "\<dots> = placeholders (json_escape s)"
    using q by (simp add: placeholders_no_brace)
  finally have p: "placeholders (dq # json_escape s @ [dq]) = placeholders (json_escape s)" .
  have "no_open_brace (json_escape s @ [dq])"
    using e q by (intro no_open_brace_appendI) simp_all
  then have "no_open_brace (dq # json_escape s @ [dq])"
    by (simp add: dq_def)
  then show ?thesis
    using p unfolding QuoteJSONString_def by (simp only: placeholders_json_escape simp_thms)
qed

lemma concat_map_leaves:
  "concat (map (\<lambda>x. map h (concat (map p (g x)))) xs)
     = map h (concat (map p (concat (map g xs))))"
  by (induction xs) simp_all

lemma placeholders_JSON_stringify:
  "mapping_free c \<Longrightarrow> \<forall>s\<in>set (string_leaves c). no_open_brace s
     \<Longrightarrow> placeholders (JSON_stringify c)
           = map json_escape (concat (map placeholders (string_leaves c)))
         \<and> no_open_brace (JSON_stringify c)"
proof (induction c)
  case JNull
  then show ?case by (simp add: placeholders_no_brace)
next
  case (JBool b)
  then show ?case by (simp add: placeholders_no_brace)
next
  case (JNum n)
  then show ?case
    by (simp add: placeholders_no_brace no_open_brace_no_brace number_toString_brace_free)
next
  case (JStr s)
  then show ?case by (simp add: placeholders_QuoteJSONString)
next
  case (JArr xs)
  have each: "\<forall>x\<in>set xs.
         placeholders (JSON_stringify x)
           = map json_escape (concat (map placeholders (string_leaves x)))
         \<and> no_open_brace (JSON_stringify x)"
    using JArr by (auto simp: list_all_iff)
  let ?ys = "map JSON_stringify xs"
  have c: "\<forall>y\<in>set ?ys. no_open_brace y" using each by simp
  have j: "placeholders (join '','' ?ys) = concat (map placeholders ?ys)"
    and o: "no_open_brace (join '','' ?ys)"
    using placeholders_join [of "'',''" ?ys] c by simp_all
  have m: "map (\<lambda>x. placeholders (JSON_stringify x)) xs
             = map (\<lambda>x. map json_escape (concat (map placeholders (string_leaves x)))) xs"
    using each by (intro map_cong) auto
  have "placeholders (CHR ''['' # join '','' ?ys @ '']'') = placeholders (join '','' ?ys @ '']'')"
    by (simp add: placeholders_Cons)
  also have "\<dots> = placeholders (join '','' ?ys) @ placeholders '']''"
    using o by (rule placeholders_append)
  also have "\<dots> = concat (map (\<lambda>x. placeholders (JSON_stringify x)) xs)"
    using j by (simp add: placeholders_no_brace comp_def)
  also have "\<dots> = concat (map (\<lambda>x. map json_escape (concat (map placeholders (string_leaves x)))) xs)"
    by (simp only: m)
  also have "\<dots> = map json_escape (concat (map placeholders (string_leaves (JArr xs))))"
    by (simp add: concat_map_leaves)
  finally have p: "placeholders (JSON_stringify (JArr xs))
        = map json_escape (concat (map placeholders (string_leaves (JArr xs))))"
    by simp
  have "no_open_brace (join '','' ?ys @ '']'')"
    using o by (intro no_open_brace_appendI) simp_all
  then show ?case using p by simp
next
  case (JObj kvs)
  then show ?case by simp
qed

text \<open>
  On a content built without key-value mappings whose string leaves have no open
  brace, \<open>extractVariables\<close> returns the placeholder names of the string leaves, as
  the serialisation escapes them, each once and in the order of first occurrence.
\<close>

lemma extractVariables_mapping_free:
  assumes "mapping_free (content s)"
    and "\<forall>str\<in>set (string_leaves (content s)). no_open_brace str"
  shows "extractVariables s
           = foldl Set_add []
               (map json_escape (concat (map placeholders (string_leaves (content s)))))"
  using placeholders_JSON_stringify [OF assms]
  by (simp add: extractVariables_def extractVariables_content_def extract_loop_placeholders)

lemma distinct_extractVariables: "distinct (extractVariables s)"
  by (simp add: extractVariables_def extractVariables_content_def extract_loop_placeholders
      distinct_foldl_Set_add)

section \<open>Full substitution, in terms of the extracted names\<close>

text \<open>
  Claim C4, as amended. Let the content of a script be built without key-value mappings,
  let its string leaves have no opening brace outside their placeholders and no
  placeholder name that the serialisation escapes, and let the value map give every
  name that \<open>extractVariables\<close> returns a value that is not empty and contains no
  opening brace. Then \<open>extractVariables\<close> on the result of \<open>replaceVariables\<close> is
  empty.
\<close>

theorem full_substitution_removes_placeholders:
  assumes "mapping_free (content s)"
    and "\<forall>str\<in>set (string_leaves (content s)).
           CHR ''{'' \<notin> set (literal_text str)
           \<and> (\<forall>tok\<in>set (placeholders str). json_escape tok = tok)"
    and "\<forall>tok\<in>set (extractVariables s). \<exists>v. V tok = Some v \<and> v \<noteq> [] \<and> CHR ''{'' \<notin> set v"
  shows "extractVariables (replaceVariables s V) = []"
proof -
  have o: "\<forall>str\<in>set (string_leaves (content s)). no_open_brace str"
    using assms(2) by (auto intro: literal_text_no_open_brace)
  have e: "set (extractVariables s)
             = json_escape ` (\<Union>str\<in>set (string_leaves (content s)). set (placeholders str))"
    by (simp add: extractVariables_mapping_free [OF assms(1) o] set_foldl_Set_add)
  have "\<forall>str\<in>set (string_leaves (content s)).
          CHR ''{'' \<notin> set (literal_text str)
          \<and> (\<forall>tok\<in>set (placeholders str). \<exists>v. V tok = Some v \<and> v \<noteq> [] \<and> CHR ''{'' \<notin> set v)"
  proof (intro ballI conjI)
    fix str assume m: "str \<in> set (string_leaves (content s))"
    show "CHR ''{'' \<notin> set (literal_text str)" using assms(2) m by blast
    fix tok assume t: "tok \<in> set (placeholders str)"
    have "json_escape tok = tok" using assms(2) m t by blast
    moreover have "json_escape tok \<in> set (extractVariables s)"
      unfolding e using m t by blast
    ultimately have "tok \<in> set (extractVariables s)" by simp
    then show "\<exists>v. V tok = Some v \<and> v \<noteq> [] \<and> CHR ''{'' \<notin> set v"
      using assms(3) by blast
  qed
  then show ?thesis
    using assms(1) by (rule full_substitution_leaves [rotated])
qed

theorem full_substitution_removes_placeholders_witness:
  "extractVariables
     (replaceVariables
        (Script_new (no_data \<lparr> data_content := Present (JArr [JStr ''Hi {a}'']) \<rparr>) 0)
        [''a'' \<mapsto> ''Ann'']) = []"
proof -
  let ?s = "Script_new (no_data \<lparr> data_content := Present (JArr [JStr ''Hi {a}'']) \<rparr>) 0"
  have c: "content ?s = JArr [JStr ''Hi {a}'']"
    by (simp add: Script_new_def no_data_def or_value_def)
  have h1: "mapping_free (content ?s)"
    by (simp add: c)
  have l: "literal_text ''Hi {a}'' = ''Hi ''"
    by (simp add: literal_text.simps variableRegex_at_def)
  have p: "placeholders ''Hi {a}'' = [''a'']"
    by (simp add: placeholders.simps variableRegex_at_def)
  have j: "json_escape ''a'' = ''a''"
    by (simp add: json_escape_def json_escape_char_def dq_def bs_def)
  have h2: "\<forall>str\<in>set (string_leaves (content ?s)).
              CHR ''{'' \<notin> set (literal_text str)
              \<and> (\<forall>tok\<in>set (placeholders str). json_escape tok = tok)"
    by (simp add: c l p j)
  have x: "extractVariables ?s = [''a'']"
    by (simp add: c extractVariables_def extractVariables_content_def QuoteJSONString_def
        json_escape_def json_escape_char_def dq_def bs_def extract_loop.simps
        variableRegex_at_def Set_add_def)
  have h3: "\<forall>tok\<in>set (extractVariables ?s).
              \<exists>v. [''a'' \<mapsto> ''Ann''] tok = Some v \<and> v \<noteq> [] \<and> CHR ''{'' \<notin> set v"
    by (simp add: x)
  show ?thesis
    using full_substitution_removes_placeholders [OF h1 h2 h3] .
qed

theorem full_substitution_reintroduces_counterexample:
  "extractVariables_content (JArr [JStr ''Hi {a}'']) = [''a'']
   \<and> extractVariables_content (replaceInObject [''a'' \<mapsto> ''{b}''] (JArr [JStr ''Hi {a}'']))
       = [''b'']"
  by (simp add: extractVariables_content_def QuoteJSONString_def json_escape_def json_escape_char_def
      dq_def bs_def extract_loop.simps variableRegex_at_def Set_add_def
      replaceInString.simps replacer_def)

end
